theory Spec2Isabelle
  imports Complex_Main "HOL-Library.Word"
begin

section \<open>Floating-point samples\<close>

text \<open>
  The notebook computes on numpy \<open>float64\<close> arrays. A sample is modelled by its IEEE 754
  class: not-a-number, one of the two infinities, or a finite number. Finite numbers are
  carried as reals: rounding, overflow and the sign of zero are not modelled (a zero
  divisor counts as \<open>+0\<close>). The properties below concern only which class a sample falls
  in and the exact quotient where it is finite.
\<close>

datatype float64 = NaN | PosInf | NegInf | Num real

text \<open>The four conditions numpy tracks: \<open>divide\<close>, \<open>over\<close>, \<open>under\<close>, \<open>invalid\<close>.\<close>

datatype fpe = DivideByZero | Overflow | Underflow | InvalidOp

fun f_neg :: "float64 \<Rightarrow> float64" where
  "f_neg NaN = NaN"
| "f_neg PosInf = NegInf"
| "f_neg NegInf = PosInf"
| "f_neg (Num a) = Num (- a)"

fun f_add :: "float64 \<Rightarrow> float64 \<Rightarrow> float64" where
  "f_add NaN y = NaN"
| "f_add x NaN = NaN"
| "f_add PosInf NegInf = NaN"
| "f_add NegInf PosInf = NaN"
| "f_add PosInf y = PosInf"
| "f_add NegInf y = NegInf"
| "f_add (Num a) PosInf = PosInf"
| "f_add (Num a) NegInf = NegInf"
| "f_add (Num a) (Num b) = Num (a + b)"

fun f_add_flags :: "float64 \<Rightarrow> float64 \<Rightarrow> fpe set" where
  "f_add_flags PosInf NegInf = {InvalidOp}"
| "f_add_flags NegInf PosInf = {InvalidOp}"
| "f_add_flags x y = {}"

definition f_sub :: "float64 \<Rightarrow> float64 \<Rightarrow> float64" where
  "f_sub x y = f_add x (f_neg y)"

definition f_sub_flags :: "float64 \<Rightarrow> float64 \<Rightarrow> fpe set" where
  "f_sub_flags x y = f_add_flags x (f_neg y)"

fun f_div :: "float64 \<Rightarrow> float64 \<Rightarrow> float64" where
  "f_div NaN y = NaN"
| "f_div x NaN = NaN"
| "f_div PosInf PosInf = NaN"
| "f_div PosInf NegInf = NaN"
| "f_div NegInf PosInf = NaN"
| "f_div NegInf NegInf = NaN"
| "f_div PosInf (Num b) = (if b < 0 then NegInf else PosInf)"
| "f_div NegInf (Num b) = (if b < 0 then PosInf else NegInf)"
| "f_div (Num a) PosInf = Num 0"
| "f_div (Num a) NegInf = Num 0"
| "f_div (Num a) (Num b) =
     (if b \<noteq> 0 then Num (a / b)
      else if a = 0 then NaN
      else if 0 < a then PosInf else NegInf)"

fun f_div_flags :: "float64 \<Rightarrow> float64 \<Rightarrow> fpe set" where
  "f_div_flags PosInf PosInf = {InvalidOp}"
| "f_div_flags PosInf NegInf = {InvalidOp}"
| "f_div_flags NegInf PosInf = {InvalidOp}"
| "f_div_flags NegInf NegInf = {InvalidOp}"
| "f_div_flags (Num a) (Num b) =
     (if b \<noteq> 0 then {} else if a = 0 then {InvalidOp} else {DivideByZero})"
| "f_div_flags x y = {}"

text \<open>Comparisons: every comparison with NaN is false.\<close>

fun f_eq :: "float64 \<Rightarrow> float64 \<Rightarrow> bool" where
  "f_eq (Num a) (Num b) = (a = b)"
| "f_eq PosInf PosInf = True"
| "f_eq NegInf NegInf = True"
| "f_eq x y = False"

fun f_gt :: "float64 \<Rightarrow> float64 \<Rightarrow> bool" where
  "f_gt NaN y = False"
| "f_gt x NaN = False"
| "f_gt PosInf PosInf = False"
| "f_gt PosInf y = True"
| "f_gt x NegInf = (x \<noteq> NegInf)"
| "f_gt NegInf y = False"
| "f_gt (Num a) PosInf = False"
| "f_gt (Num a) (Num b) = (b < a)"

definition f_le :: "float64 \<Rightarrow> float64 \<Rightarrow> bool" where
  "f_le x y = (f_gt y x \<or> f_eq x y)"

definition is_inf :: "float64 \<Rightarrow> bool" where
  "is_inf x = (x = PosInf \<or> x = NegInf)"

section \<open>Two-dimensional arrays\<close>

text \<open>
  A numpy array of two dimensions: its shape and its items in row-major order, so that
  the pixel in row \<open>i\<close> and column \<open>j\<close> is item \<open>i * ncols + j\<close>.
\<close>

record 'a ndarray =
  nrows :: nat
  ncols :: nat
  items :: "'a list"

definition wf :: "'a ndarray \<Rightarrow> bool" where
  "wf a = (length (items a) = nrows a * ncols a)"

definition same_shape :: "'a ndarray \<Rightarrow> 'b ndarray \<Rightarrow> bool" where
  "same_shape a b = (nrows a = nrows b \<and> ncols a = ncols b)"

definition px :: "'a ndarray \<Rightarrow> nat \<Rightarrow> nat \<Rightarrow> 'a" where
  "px a i j = items a ! (i * ncols a + j)"

definition of_rows :: "'a list list \<Rightarrow> 'a ndarray" where
  "of_rows rs = \<lparr>nrows = length rs,
                ncols = (case rs of [] \<Rightarrow> 0 | r # _ \<Rightarrow> length r),
                items = concat rs\<rparr>"

definition nd_map :: "('a \<Rightarrow> 'b) \<Rightarrow> 'a ndarray \<Rightarrow> 'b ndarray" where
  "nd_map f a = \<lparr>nrows = nrows a, ncols = ncols a, items = map f (items a)\<rparr>"

text \<open>The statement \<open>a[a ? c] = v\<close>: every item that satisfies the comparison becomes \<open>v\<close>.\<close>

definition assign_where :: "('a \<Rightarrow> bool) \<Rightarrow> 'a \<Rightarrow> 'a ndarray \<Rightarrow> 'a ndarray" where
  "assign_where p v a = nd_map (\<lambda>x. if p x then v else x) a"

section \<open>Reflectance normalisation and the correction to 1\<close>

text \<open>
  \<open>red = red / 10000\<close>: numpy's true division converts the unsigned samples to
  \<open>float64\<close> and divides each by the scalar.
\<close>

definition astype_float64 :: "'a::len word ndarray \<Rightarrow> float64 ndarray" where
  "astype_float64 raw = nd_map (\<lambda>w. Num (real (unat w))) raw"

definition true_divide_scalar :: "float64 ndarray \<Rightarrow> float64 \<Rightarrow> float64 ndarray" where
  "true_divide_scalar a s = nd_map (\<lambda>x. f_div x s) a"

text \<open>\<open>red[red == 0] = np.nan\<close>\<close>

definition replace_zero :: "float64 ndarray \<Rightarrow> float64 ndarray" where
  "replace_zero a = assign_where (\<lambda>x. f_eq x (Num 0)) NaN a"

text \<open>The two statements on an array that is already floating point.\<close>

definition normalize_float :: "real \<Rightarrow> float64 ndarray \<Rightarrow> float64 ndarray" where
  "normalize_float s a = replace_zero (true_divide_scalar a (Num s))"

definition normalize_band :: "real \<Rightarrow> 'a::len word ndarray \<Rightarrow> float64 ndarray" where
  "normalize_band s raw = normalize_float s (astype_float64 raw)"

text \<open>The notebook's scale factor.\<close>

definition rescale_band :: "'a::len word ndarray \<Rightarrow> float64 ndarray" where
  "rescale_band raw = normalize_band 10000 raw"

text \<open>\<open>red[red > 1] = 1\<close>\<close>

definition clamp_to_one :: "float64 ndarray \<Rightarrow> float64 ndarray" where
  "clamp_to_one a = assign_where (\<lambda>x. f_gt x (Num 1)) (Num 1) a"

text \<open>
  What normalisation can produce: no-data or a finite number that is not negative.
\<close>

fun reflectance_sample :: "float64 \<Rightarrow> bool" where
  "reflectance_sample NaN = True"
| "reflectance_sample (Num r) = (0 \<le> r)"
| "reflectance_sample x = False"

definition reflectance_array :: "float64 ndarray \<Rightarrow> bool" where
  "reflectance_array a = list_all reflectance_sample (items a)"

section \<open>numpy's floating-point error handling\<close>

text \<open>
  numpy keeps one error state for the running interpreter: for each of the four conditions
  a mode that says what happens when an operation meets it. \<open>np.seterr\<close> overwrites the
  modes it is given, keeps the others and returns the old state. The defaults are
  \<open>warn\<close> for divide, over and invalid, and \<open>ignore\<close> for under.
\<close>

datatype errmode = Ignore | Warn | Raise | Call | Print | Log

record errstate =
  err_divide :: errmode
  err_over :: errmode
  err_under :: errmode
  err_invalid :: errmode

definition default_errstate :: errstate where
  "default_errstate =
     \<lparr>err_divide = Warn, err_over = Warn, err_under = Ignore, err_invalid = Warn\<rparr>"

definition seterr ::
  "errmode option \<Rightarrow> errmode option \<Rightarrow> errmode option \<Rightarrow> errmode option \<Rightarrow> errmode option
     \<Rightarrow> errstate \<Rightarrow> errstate \<times> errstate" where
  "seterr all dv ov un iv old =
     (let pick = (\<lambda>arg cur. case arg of Some m \<Rightarrow> m
                              | None \<Rightarrow> (case all of Some m \<Rightarrow> m | None \<Rightarrow> cur))
      in (old, \<lparr>err_divide = pick dv (err_divide old), err_over = pick ov (err_over old),
                err_under = pick un (err_under old), err_invalid = pick iv (err_invalid old)\<rparr>))"

datatype np_error = ValueError | FloatingPointError fpe

datatype fp_event = RuntimeWarning fpe | ErrCall fpe | ErrPrint fpe | ErrLog fpe

fun mode_of :: "errstate \<Rightarrow> fpe \<Rightarrow> errmode" where
  "mode_of es DivideByZero = err_divide es"
| "mode_of es Overflow = err_over es"
| "mode_of es Underflow = err_under es"
| "mode_of es InvalidOp = err_invalid es"

fun emit :: "errmode \<Rightarrow> fpe \<Rightarrow> fp_event list" where
  "emit Warn f = [RuntimeWarning f]"
| "emit Call f = [ErrCall f]"
| "emit Print f = [ErrPrint f]"
| "emit Log f = [ErrLog f]"
| "emit m f = []"

text \<open>
  After an operation numpy goes through the conditions that were met, in the order
  divide, over, under, invalid: mode \<open>raise\<close> raises \<open>FloatingPointError\<close>, \<open>ignore\<close> does
  nothing, and the other modes report the condition and go on.
\<close>

fun handle_fpe :: "errstate \<Rightarrow> fpe list \<Rightarrow> np_error + fp_event list" where
  "handle_fpe es [] = Inr []"
| "handle_fpe es (f # fs) =
     (if mode_of es f = Raise then Inl (FloatingPointError f)
      else case handle_fpe es fs of
             Inl e \<Rightarrow> Inl e
           | Inr evs \<Rightarrow> Inr (emit (mode_of es f) f @ evs))"

definition fpe_order :: "fpe list" where
  "fpe_order = [DivideByZero, Overflow, Underflow, InvalidOp]"

definition raised :: "('a \<Rightarrow> 'b \<Rightarrow> fpe set) \<Rightarrow> ('a \<times> 'b) list \<Rightarrow> fpe list" where
  "raised fl ps = filter (\<lambda>f. list_ex (\<lambda>(x, y). f \<in> fl x y) ps) fpe_order"

section \<open>Elementwise operations with broadcasting\<close>

text \<open>
  Two axes are compatible when their lengths are equal or one of them is 1; an axis of
  length 1 is repeated. Incompatible shapes raise \<open>ValueError\<close>.
\<close>

definition bdim :: "nat \<Rightarrow> nat \<Rightarrow> nat option" where
  "bdim m n = (if m = n then Some m else if m = 1 then Some n
               else if n = 1 then Some m else None)"

definition broadcast_to :: "nat \<Rightarrow> nat \<Rightarrow> 'a ndarray \<Rightarrow> 'a ndarray" where
  "broadcast_to r c a =
     \<lparr>nrows = r, ncols = c,
      items = map (\<lambda>k. items a ! ((if nrows a = 1 then 0 else k div c) * ncols a
                                  + (if ncols a = 1 then 0 else k mod c)))
                  [0 ..< r * c]\<rparr>"

definition broadcast2 :: "'a ndarray \<Rightarrow> 'b ndarray \<Rightarrow> np_error + ('a ndarray \<times> 'b ndarray)" where
  "broadcast2 a b =
     (case (bdim (nrows a) (nrows b), bdim (ncols a) (ncols b)) of
        (Some r, Some c) \<Rightarrow> Inr (broadcast_to r c a, broadcast_to r c b)
      | _ \<Rightarrow> Inl ValueError)"

definition ufunc2 ::
  "(float64 \<Rightarrow> float64 \<Rightarrow> float64) \<Rightarrow> (float64 \<Rightarrow> float64 \<Rightarrow> fpe set) \<Rightarrow> errstate
     \<Rightarrow> float64 ndarray \<Rightarrow> float64 ndarray \<Rightarrow> np_error + (float64 ndarray \<times> fp_event list)" where
  "ufunc2 f fl es a b =
     (case broadcast2 a b of
        Inl e \<Rightarrow> Inl e
      | Inr (a', b') \<Rightarrow>
          (let ps = zip (items a') (items b') in
           case handle_fpe es (raised fl ps) of
             Inl e \<Rightarrow> Inl e
           | Inr evs \<Rightarrow>
               Inr (\<lparr>nrows = nrows a', ncols = ncols a', items = map (\<lambda>(x, y). f x y) ps\<rparr>,
                    evs)))"

definition np_subtract ::
  "errstate \<Rightarrow> float64 ndarray \<Rightarrow> float64 ndarray
     \<Rightarrow> np_error + (float64 ndarray \<times> fp_event list)" where
  "np_subtract = ufunc2 f_sub f_sub_flags"

definition np_add ::
  "errstate \<Rightarrow> float64 ndarray \<Rightarrow> float64 ndarray
     \<Rightarrow> np_error + (float64 ndarray \<times> fp_event list)" where
  "np_add = ufunc2 f_add f_add_flags"

definition np_divide ::
  "errstate \<Rightarrow> float64 ndarray \<Rightarrow> float64 ndarray
     \<Rightarrow> np_error + (float64 ndarray \<times> fp_event list)" where
  "np_divide = ufunc2 f_div f_div_flags"

section \<open>The NDVI cells\<close>

text \<open>\<open>np.seterr(divide="ignore", invalid="ignore")\<close>\<close>

definition seterr_ignore :: "errstate \<Rightarrow> errstate" where
  "seterr_ignore es = snd (seterr None (Some Ignore) None None (Some Ignore) es)"

text \<open>
  \<open>ndvi = (ss_nir - ss_red) / (ss_nir + ss_red)\<close>: three elementwise operations, each under
  the error state in force; the result comes with what the operations reported.
\<close>

definition ndvi ::
  "errstate \<Rightarrow> float64 ndarray \<Rightarrow> float64 ndarray
     \<Rightarrow> np_error + (float64 ndarray \<times> fp_event list)" where
  "ndvi es nir red =
     (case np_subtract es nir red of
        Inl e \<Rightarrow> Inl e
      | Inr (d, ev1) \<Rightarrow>
          (case np_add es nir red of
             Inl e \<Rightarrow> Inl e
           | Inr (s, ev2) \<Rightarrow>
               (case np_divide es d s of
                  Inl e \<Rightarrow> Inl e
                | Inr (q, ev3) \<Rightarrow> Inr (q, ev1 @ ev2 @ ev3))))"

text \<open>
  The part of the notebook's state these cells touch: numpy's error state, the two bands
  read from the cropped raster, the NDVI array once computed, and what has been reported.
\<close>

record session =
  errs :: errstate
  ss_nir :: "float64 ndarray"
  ss_red :: "float64 ndarray"
  ndvi_array :: "float64 ndarray option"
  reported :: "fp_event list"

definition run_seterr :: "session \<Rightarrow> session" where
  "run_seterr st = st\<lparr>errs := seterr_ignore (errs st)\<rparr>"

definition run_ndvi :: "session \<Rightarrow> np_error + session" where
  "run_ndvi st =
     (case ndvi (errs st) (ss_nir st) (ss_red st) of
        Inl e \<Rightarrow> Inl e
      | Inr (q, evs) \<Rightarrow> Inr (st\<lparr>ndvi_array := Some q, reported := reported st @ evs\<rparr>))"

section \<open>Category filter\<close>

text \<open>
  The toolbox module \<open>seurasaari_toolbox\<close> that the notebook imports as \<open>stb\<close> is not among
  the sources. Its functions are modelled from the specification's component design.
\<close>

datatype pipeline_error =
  InvalidShapeError | DuplicateCategoryError | UnsupportedDtypeError | InvalidPercentileError

text \<open>
  A categorical raster band: the grid of integer class codes and the no-data value of the
  raster's metadata, when one is defined.
\<close>

record categorical_band =
  codes :: "int ndarray"
  nodata_value :: "int option"

text \<open>
  Modelled from the spec: \<open>stb.create_forest_mask\<close> is missing. Section 4.4 b: for each
  pixel, output 1 if its code is in \<open>forest_codes\<close>, else 0; no-data pixels of the
  categorical raster (if a no-data value is defined for it) must output 0.
\<close>

definition forest_mask :: "categorical_band \<Rightarrow> int set \<Rightarrow> nat ndarray" where
  "forest_mask band forest_codes =
     nd_map (\<lambda>c. if Some c = nodata_value band then 0
                 else if c \<in> forest_codes then 1 else 0) (codes band)"

datatype 'r warning = SkippedRow 'r

text \<open>
  Modelled from the spec: \<open>stb.get_corine_dict\<close> is missing. Section 4.4 a: parse the rows
  of the lookup table into code and label; a row that cannot be parsed is skipped with a
  warning; a code defined twice with conflicting labels (section 7) is a
  \<open>DuplicateCategoryError\<close>. The format of a row is left to the table source, so the row
  parser is a parameter. The category map is kept as an association list in the order of
  first appearance.
\<close>

fun add_rows ::
  "('r \<Rightarrow> (nat \<times> string) option) \<Rightarrow> 'r list \<Rightarrow> (nat \<times> string) list \<Rightarrow> 'r warning list
     \<Rightarrow> pipeline_error + ((nat \<times> string) list \<times> 'r warning list)" where
  "add_rows parse [] m ws = Inr (m, ws)"
| "add_rows parse (r # rs) m ws =
     (case parse r of
        None \<Rightarrow> add_rows parse rs m (ws @ [SkippedRow r])
      | Some (c, l) \<Rightarrow>
          (case map_of m c of
             None \<Rightarrow> add_rows parse rs (m @ [(c, l)]) ws
           | Some l' \<Rightarrow>
               if l' = l then add_rows parse rs m ws else Inl DuplicateCategoryError))"

definition build_category_map ::
  "('r \<Rightarrow> (nat \<times> string) option) \<Rightarrow> 'r list
     \<Rightarrow> pipeline_error + ((nat \<times> string) list \<times> 'r warning list)" where
  "build_category_map parse rows = add_rows parse rows [] []"

text \<open>The entries of the rows that parse, in order.\<close>

definition parsed_rows :: "('r \<Rightarrow> (nat \<times> string) option) \<Rightarrow> 'r list \<Rightarrow> (nat \<times> string) list" where
  "parsed_rows parse rows = List.map_filter parse rows"

text \<open>No code with two different labels.\<close>

definition consistent :: "(nat \<times> string) set \<Rightarrow> bool" where
  "consistent S = (\<forall>c l l'. (c, l) \<in> S \<and> (c, l') \<in> S \<longrightarrow> l = l')"

text \<open>
  A row format for the examples: a cell for the code and a cell for the label; a row
  parses when its code is not negative and its label is not empty.
\<close>

definition parse_code_label :: "int \<times> string \<Rightarrow> (nat \<times> string) option" where
  "parse_code_label row =
     (if 0 \<le> fst row \<and> snd row \<noteq> [] then Some (nat (fst row), snd row) else None)"

section \<open>Zonal aggregator adapter\<close>

datatype py_error = ZeroDivisionError

text \<open>Python's \<open>/\<close> on numbers raises on a zero divisor.\<close>

definition py_truediv :: "real \<Rightarrow> real \<Rightarrow> py_error + real" where
  "py_truediv a b = (if b = 0 then Inl ZeroDivisionError else Inr (a / b))"

text \<open>Rounding to one decimal place.\<close>

definition round1 :: "real \<Rightarrow> real" where
  "round1 x = real_of_int (round (x * 10)) / 10"

text \<open>
  Modelled from the spec: \<open>stb.get_zonal_stats_percentage\<close> is missing. Section 4.5: sum all
  counts in the record as the total; for each entry the percentage is
  \<open>100 * count / total\<close>, rounded to one decimal place; a total of 0 gives the empty
  mapping. A record is a dictionary from label to pixel count, kept as an association list
  in insertion order.
\<close>

fun percent_entries :: "nat \<Rightarrow> ('k \<times> nat) list \<Rightarrow> py_error + ('k \<times> real) list" where
  "percent_entries tot [] = Inr []"
| "percent_entries tot ((k, c) # es) =
     (case py_truediv (100 * real c) (real tot) of
        Inl e \<Rightarrow> Inl e
      | Inr p \<Rightarrow>
          (case percent_entries tot es of
             Inl e \<Rightarrow> Inl e
           | Inr ps \<Rightarrow> Inr ((k, round1 p) # ps)))"

definition to_percentages :: "('k \<times> nat) list \<Rightarrow> py_error + ('k \<times> real) list" where
  "to_percentages zonal_record =
     (let tot = sum_list (map snd zonal_record)
      in if tot = 0 then Inr [] else percent_entries tot zonal_record)"

section \<open>Contrast stretcher\<close>

text \<open>The samples that carry a measurement, in array order.\<close>

definition valid_samples :: "float64 ndarray \<Rightarrow> real list" where
  "valid_samples band =
     List.map_filter (\<lambda>x. case x of Num r \<Rightarrow> Some r | _ \<Rightarrow> None) (items band)"

text \<open>
  The \<open>q\<close>-th percentile of a non-empty list for \<open>0 \<le> q \<le> 100\<close>, by linear interpolation
  between the two nearest ranks of the sorted samples.
\<close>

definition percentile :: "real \<Rightarrow> real list \<Rightarrow> real" where
  "percentile q xs =
     (let s = sort xs;
          h = q / 100 * real (length s - 1);
          lo = nat \<lfloor>h\<rfloor>;
          hi = min (lo + 1) (length s - 1)
      in s ! lo + (h - real lo) * (s ! hi - s ! lo))"

text \<open>Clamping into [0,1]; NaN stays NaN.\<close>

fun f_clip01 :: "float64 \<Rightarrow> float64" where
  "f_clip01 NaN = NaN"
| "f_clip01 PosInf = Num 1"
| "f_clip01 NegInf = Num 0"
| "f_clip01 (Num x) = Num (max 0 (min 1 x))"

text \<open>
  Modelled from the spec: \<open>stb.stretch\<close> is missing. Section 4.2: compute the low and the
  high percentile value over the samples that are not no-data; remap linearly so that these
  two values go to 0 and 1; clamp into [0,1]; no-data samples remain no-data; when the two
  values are equal the input is returned unchanged. The spec names no error for percentile
  bounds outside 0..100; by the fail-fast policy of section 7 they are rejected. A band
  without any valid sample has nothing to remap and is returned unchanged.
\<close>

definition stretch :: "real \<Rightarrow> real \<Rightarrow> float64 ndarray \<Rightarrow> pipeline_error + float64 ndarray" where
  "stretch low_percentile high_percentile band =
     (if \<not> (0 \<le> low_percentile \<and> low_percentile \<le> 100
             \<and> 0 \<le> high_percentile \<and> high_percentile \<le> 100)
      then Inl InvalidPercentileError
      else let v = valid_samples band in
        if v = [] then Inr band
        else let lo = percentile low_percentile v; hi = percentile high_percentile v in
          if lo = hi then Inr band
          else Inr (nd_map (\<lambda>x. f_clip01 (f_div (f_sub x (Num lo)) (Num (hi - lo)))) band))"

section \<open>Basic facts\<close>

lemma nd_map_shape [simp]:
  "nrows (nd_map f a) = nrows a" "ncols (nd_map f a) = ncols a"
  "length (items (nd_map f a)) = length (items a)"
  by (simp_all add: nd_map_def)

lemma nd_map_item [simp]:
  "k < length (items a) \<Longrightarrow> items (nd_map f a) ! k = f (items a ! k)"
  by (simp add: nd_map_def)

lemma unsigned_real_nonneg: "(0::real) \<le> unsigned (w :: 'a::len word)"
  using of_nat_0_le_iff [of "unat w"] by simp

lemma normalize_shape:
  "nrows (normalize_band s raw) = nrows raw" "ncols (normalize_band s raw) = ncols raw"
  "length (items (normalize_band s raw)) = length (items raw)"
  by (simp_all add: normalize_band_def normalize_float_def replace_zero_def assign_where_def
      true_divide_scalar_def astype_float64_def)

lemma normalize_item:
  assumes "0 < s" and "k < length (items raw)"
  shows "items (normalize_band s raw) ! k =
           (if items raw ! k = 0 then NaN else Num (real (unat (items raw ! k)) / s))"
  using assms
  by (simp add: normalize_band_def normalize_float_def replace_zero_def assign_where_def
      true_divide_scalar_def astype_float64_def unsigned_eq_0_iff)

lemma normalize_reflectance:
  assumes "0 < s"
  shows "reflectance_array (normalize_band s raw)"
  unfolding reflectance_array_def list_all_length
  using assms
  by (simp add: normalize_shape normalize_item zero_le_divide_iff unsigned_real_nonneg)

lemma rescale_band_item:
  "k < length (items raw) \<Longrightarrow>
     items (rescale_band raw) ! k =
       (if items raw ! k = 0 then NaN else Num (real (unat (items raw ! k)) / 10000))"
  by (simp add: rescale_band_def normalize_item)

lemma px_of_rows:
  "px (of_rows [[a, b], [c, d]]) 1 0 = c"
  by (simp add: px_def of_rows_def)

lemma assign_where_item:
  "k < length (items a) \<Longrightarrow>
     items (assign_where p v a) ! k = (if p (items a ! k) then v else items a ! k)"
  by (simp add: assign_where_def)

lemma f_div_one [simp]: "f_div x (Num 1) = x"
  by (cases x) simp_all

section \<open>Properties of normalisation\<close>

text \<open>
  C2. For every unsigned raw band and every positive scale factor \<open>s\<close>, normalisation keeps
  the shape, divides every sample by \<open>s\<close> and then replaces every quotient that compares
  equal to zero by NaN. The quotient is zero exactly where the raw value is 0, so every
  pixel whose raw value is 0 is NaN in the output and every other pixel holds its quotient.
\<close>

theorem normalize_zero_is_nodata:
  fixes raw :: "'a::len word ndarray"
  assumes "0 < s"
  shows "same_shape (normalize_band s raw) raw
       \<and> length (items (normalize_band s raw)) = length (items raw)
       \<and> (\<forall>k < length (items raw).
             items (normalize_band s raw) ! k =
               (let q = f_div (Num (real (unat (items raw ! k)))) (Num s)
                in if f_eq q (Num 0) then NaN else q))
       \<and> (\<forall>k < length (items raw).
             items (normalize_band s raw) ! k =
               (if items raw ! k = 0 then NaN else Num (real (unat (items raw ! k)) / s)))"
proof -
  have "items (normalize_band s raw) ! k =
          (let q = f_div (Num (real (unat (items raw ! k)))) (Num s)
           in if f_eq q (Num 0) then NaN else q)"
    if "k < length (items raw)" for k
    using that
    by (simp add: normalize_band_def normalize_float_def replace_zero_def assign_where_def
        true_divide_scalar_def astype_float64_def Let_def)
  then show ?thesis
    using assms by (simp add: normalize_item normalize_shape same_shape_def)
qed

theorem normalize_zero_is_nodata_witness:
  "(0::real) < 10000
   \<and> items (normalize_band 10000 (of_rows [[0, 2500], [10000, 0 :: 16 word]])) ! 0 = NaN
   \<and> items (normalize_band 10000 (of_rows [[0, 2500], [10000, 0 :: 16 word]])) ! 1 = Num (1/4)
   \<and> items (normalize_band 10000 (of_rows [[0, 2500], [10000, 0 :: 16 word]])) ! 2 = Num 1
   \<and> items (normalize_band 10000 (of_rows [[0, 2500], [10000, 0 :: 16 word]])) ! 3 = NaN"
proof -
  let ?raw = "of_rows [[0, 2500], [10000, 0 :: 16 word]]"
  have h: "(0::real) < 10000" by simp
  have its: "items ?raw = [0, 2500, 10000, 0]" by (simp add: of_rows_def)
  have "\<forall>k < length (items ?raw). items (normalize_band 10000 ?raw) ! k =
          (if items ?raw ! k = 0 then NaN else Num (real (unat (items ?raw ! k)) / 10000))"
    using normalize_zero_is_nodata [OF h, of ?raw] by blast
  then have "\<forall>k < 4. items (normalize_band 10000 ?raw) ! k =
          (if [0, 2500, 10000, 0 :: 16 word] ! k = 0 then NaN
           else Num (real (unat ([0, 2500, 10000, 0 :: 16 word] ! k)) / 10000))"
    unfolding its by simp
  then show ?thesis by simp
qed

text \<open>
  C5. Normalisation with scale factor 1 changes nothing on an array that is already masked
  (no sample compares equal to zero): dividing by 1 leaves every sample as it is and no
  sample is newly flagged. This covers every masked reflectance array within [0,1] and,
  in particular, every output of normalisation itself.
\<close>

theorem normalize_scale_one_noop:
  "((\<forall>k < length (items a). \<not> f_eq (items a ! k) (Num 0)) \<longrightarrow> normalize_float 1 a = a)
   \<and> (0 < s \<longrightarrow> normalize_float 1 (normalize_band s raw) = normalize_band s raw)"
proof -
  have noop: "normalize_float 1 b = b"
    if m: "\<forall>k < length (items b). \<not> f_eq (items b ! k) (Num 0)" for b :: "float64 ndarray"
  proof -
    have "map (\<lambda>x. if f_eq x (Num 0) then NaN else x) (items b) = items b"
      using m by (intro nth_equalityI) simp_all
    then show ?thesis
      by (cases b)
         (simp add: normalize_float_def replace_zero_def assign_where_def
            true_divide_scalar_def nd_map_def comp_def)
  qed
  have "\<not> f_eq (items (normalize_band s raw) ! k) (Num 0)"
    if "0 < s" "k < length (items (normalize_band s raw))" for k
    using that by (simp add: normalize_shape normalize_item unsigned_eq_0_iff)
  then show ?thesis
    using noop by blast
qed

theorem normalize_scale_one_noop_witness:
  "\<not> f_eq NaN (Num 0) \<and> \<not> f_eq (Num (1/4)) (Num 0) \<and> \<not> f_eq (Num 1) (Num 0)
   \<and> normalize_float 1 (of_rows [[NaN, Num (1/4)], [Num 1, NaN]])
       = of_rows [[NaN, Num (1/4)], [Num 1, NaN]]"
proof -
  let ?a = "of_rows [[NaN, Num (1/4)], [Num 1, NaN]]"
  have "\<forall>k < length (items ?a). \<not> f_eq (items ?a ! k) (Num 0)"
    by (simp add: of_rows_def less_Suc_eq numeral_eq_Suc nth_Cons')
  then have "normalize_float 1 ?a = ?a"
    using normalize_scale_one_noop [of ?a 1 "of_rows [[0 :: 16 word]]"] by blast
  then show ?thesis by simp
qed

section \<open>Properties of the correction to 1\<close>

text \<open>
  C10. The statement \<open>a[a > 1] = 1\<close> keeps the shape, leaves every sample that is NaN or at
  most 1 exactly as it is, and keeps the no-data mask: a pixel is NaN afterwards exactly
  when it was NaN before. On a reflectance array (samples NaN or finite and not negative)
  the only samples it changes are finite values strictly above 1, which become 1.
\<close>

theorem clamp_to_one_frame:
  "same_shape (clamp_to_one a) a
   \<and> length (items (clamp_to_one a)) = length (items a)
   \<and> (\<forall>k < length (items a).
         items a ! k = NaN \<or> f_le (items a ! k) (Num 1)
           \<longrightarrow> items (clamp_to_one a) ! k = items a ! k)
   \<and> (\<forall>k < length (items a). items (clamp_to_one a) ! k = NaN \<longleftrightarrow> items a ! k = NaN)
   \<and> (reflectance_array a \<longrightarrow>
        (\<forall>k < length (items a).
           items (clamp_to_one a) ! k \<noteq> items a ! k
             \<longrightarrow> (\<exists>r. items a ! k = Num r \<and> 1 < r) \<and> items (clamp_to_one a) ! k = Num 1))"
proof -
  have keep: "\<not> f_gt x (Num 1)" if "x = NaN \<or> f_le x (Num 1)" for x
    using that by (cases x) (auto simp: f_le_def)
  have nan: "(if f_gt x (Num 1) then Num 1 else x) = NaN \<longleftrightarrow> x = NaN" for x
    by (cases x) auto
  have chg: "(\<exists>r. x = Num r \<and> 1 < r)" if "reflectance_sample x" "f_gt x (Num 1)" for x
    using that by (cases x) auto
  have refl: "reflectance_sample (items a ! k)"
    if "reflectance_array a" "k < length (items a)" for k
    using that by (simp add: reflectance_array_def list_all_length)
  show ?thesis
    unfolding clamp_to_one_def
    using keep nan chg refl
    by (auto simp: assign_where_item same_shape_def assign_where_def)
qed

theorem clamp_to_one_frame_witness:
  "reflectance_array (of_rows [[NaN, Num (1/2)], [Num 1, Num (3/2)]])
   \<and> f_le (Num (1/2)) (Num 1) \<and> f_le (Num 1) (Num 1)
   \<and> items (clamp_to_one (of_rows [[NaN, Num (1/2)], [Num 1, Num (3/2)]])) ! 0 = NaN
   \<and> items (clamp_to_one (of_rows [[NaN, Num (1/2)], [Num 1, Num (3/2)]])) ! 1 = Num (1/2)
   \<and> items (clamp_to_one (of_rows [[NaN, Num (1/2)], [Num 1, Num (3/2)]])) ! 2 = Num 1
   \<and> items (clamp_to_one (of_rows [[NaN, Num (1/2)], [Num 1, Num (3/2)]])) ! 3 = Num 1"
proof -
  let ?a = "of_rows [[NaN, Num (1/2)], [Num 1, Num (3/2)]]"
  have its: "items ?a = [NaN, Num (1/2), Num 1, Num (3/2)]" by (simp add: of_rows_def)
  have r: "reflectance_array ?a" by (simp add: reflectance_array_def its)
  have keep: "\<forall>k < length (items ?a).
         items ?a ! k = NaN \<or> f_le (items ?a ! k) (Num 1)
           \<longrightarrow> items (clamp_to_one ?a) ! k = items ?a ! k"
    using clamp_to_one_frame [of ?a] by blast
  have k0: "items (clamp_to_one ?a) ! 0 = NaN"
    using keep [rule_format, of 0] by (simp add: its)
  have k1: "items (clamp_to_one ?a) ! 1 = Num (1/2)"
    using keep [rule_format, of 1] by (simp add: its f_le_def)
  have k2: "items (clamp_to_one ?a) ! 2 = Num 1"
    using keep [rule_format, of 2] by (simp add: its f_le_def)
  have k3: "items (clamp_to_one ?a) ! 3 = Num 1"
    by (simp add: clamp_to_one_def assign_where_item its)
  show ?thesis
    using r k0 k1 k2 k3 by (simp add: f_le_def)
qed

section \<open>Facts about error handling and broadcasting\<close>

lemma seterr_ignore_fields [simp]:
  "err_divide (seterr_ignore es) = Ignore" "err_invalid (seterr_ignore es) = Ignore"
  "err_over (seterr_ignore es) = err_over es" "err_under (seterr_ignore es) = err_under es"
  by (simp_all add: seterr_ignore_def seterr_def)

lemma handle_fpe_ignored:
  "list_all (\<lambda>f. mode_of es f = Ignore) fs \<Longrightarrow> handle_fpe es fs = Inr []"
  by (induction fs) simp_all

lemma raised_subset:
  assumes "\<And>x y. fl x y \<subseteq> F"
  shows "set (raised fl ps) \<subseteq> F"
  using assms by (auto simp: raised_def list_ex_iff)

lemma f_add_flags_sub: "f_add_flags x y \<subseteq> {DivideByZero, InvalidOp}"
  by (cases x; cases y) simp_all

lemma f_sub_flags_sub: "f_sub_flags x y \<subseteq> {DivideByZero, InvalidOp}"
  by (simp add: f_sub_flags_def f_add_flags_sub)

lemma f_div_flags_sub: "f_div_flags x y \<subseteq> {DivideByZero, InvalidOp}"
  by (cases x; cases y) simp_all

lemma handle_fpe_seterr_ignore:
  assumes "\<And>x y. fl x y \<subseteq> {DivideByZero, InvalidOp}"
  shows "handle_fpe (seterr_ignore es) (raised fl ps) = Inr []"
proof (rule handle_fpe_ignored)
  have "set (raised fl ps) \<subseteq> {DivideByZero, InvalidOp}"
    using assms by (rule raised_subset)
  then show "list_all (\<lambda>f. mode_of (seterr_ignore es) f = Ignore) (raised fl ps)"
    by (auto simp: list_all_iff)
qed

lemma ndarray_eqI:
  fixes a b :: "'a ndarray"
  assumes "nrows a = nrows b" "ncols a = ncols b" "items a = items b"
  shows "a = b"
  using assms by (intro ndarray.equality) simp_all

lemma broadcast_to_self:
  assumes "wf a"
  shows "broadcast_to (nrows a) (ncols a) a = a"
proof -
  have idx: "(if nrows a = 1 then 0 else k div ncols a) * ncols a
               + (if ncols a = 1 then 0 else k mod ncols a) = k"
    if "k < nrows a * ncols a" for k
    using that by (auto simp: div_mult_mod_eq)
  have "map (\<lambda>k. items a ! ((if nrows a = 1 then 0 else k div ncols a) * ncols a
                            + (if ncols a = 1 then 0 else k mod ncols a)))
            [0 ..< nrows a * ncols a] = map (\<lambda>k. items a ! k) [0 ..< nrows a * ncols a]"
  proof (rule map_cong [OF refl])
    fix k assume "k \<in> set [0 ..< nrows a * ncols a]"
    then have "k < nrows a * ncols a" by simp
    from idx [OF this]
    show "items a ! ((if nrows a = 1 then 0 else k div ncols a) * ncols a
                      + (if ncols a = 1 then 0 else k mod ncols a)) = items a ! k"
      by (simp only:)
  qed
  also have "\<dots> = items a"
    using assms map_nth [of "items a"] by (simp only: wf_def)
  finally show ?thesis
    by (intro ndarray_eqI) (simp_all add: broadcast_to_def)
qed

lemma broadcast2_same_shape:
  assumes "wf a" "wf b" "same_shape a b"
  shows "broadcast2 a b = Inr (a, b)"
proof -
  have "broadcast_to (nrows a) (ncols a) b = b"
    using broadcast_to_self [OF assms(2)] assms(3) by (simp add: same_shape_def)
  then show ?thesis
    using broadcast_to_self [OF assms(1)] assms(3)
    by (simp add: broadcast2_def bdim_def same_shape_def)
qed

lemma ufunc2_same_shape:
  assumes "wf a" "wf b" "same_shape a b" "\<And>x y. fl x y \<subseteq> {DivideByZero, InvalidOp}"
  shows "ufunc2 f fl (seterr_ignore es) a b =
           Inr (\<lparr>nrows = nrows a, ncols = ncols a,
                 items = map (\<lambda>(x, y). f x y) (zip (items a) (items b))\<rparr>, [])"
  using assms(4)
  by (simp add: ufunc2_def broadcast2_same_shape [OF assms(1-3)] handle_fpe_seterr_ignore)

lemma ndvi_same_shape:
  assumes "wf nir" "wf red" "same_shape nir red"
  shows "ndvi (seterr_ignore es) nir red =
           Inr (\<lparr>nrows = nrows nir, ncols = ncols nir,
                 items = map (\<lambda>(n, r). f_div (f_sub n r) (f_add n r))
                             (zip (items nir) (items red))\<rparr>, [])"
proof -
  let ?d = "\<lparr>nrows = nrows nir, ncols = ncols nir,
              items = map (\<lambda>(x, y). f_sub x y) (zip (items nir) (items red))\<rparr>"
  let ?s = "\<lparr>nrows = nrows nir, ncols = ncols nir,
              items = map (\<lambda>(x, y). f_add x y) (zip (items nir) (items red))\<rparr>"
  have len: "length (items nir) = length (items red)"
    using assms by (simp add: wf_def same_shape_def)
  have d: "np_subtract (seterr_ignore es) nir red = Inr (?d, [])"
    unfolding np_subtract_def using assms f_sub_flags_sub by (rule ufunc2_same_shape)
  have s: "np_add (seterr_ignore es) nir red = Inr (?s, [])"
    unfolding np_add_def using assms f_add_flags_sub by (rule ufunc2_same_shape)
  have wfd: "wf ?d" and wfs: "wf ?s" and sh: "same_shape ?d ?s"
    using assms(1) len by (simp_all add: wf_def same_shape_def)
  have q: "np_divide (seterr_ignore es) ?d ?s =
             Inr (\<lparr>nrows = nrows ?d, ncols = ncols ?d,
                   items = map (\<lambda>(x, y). f_div x y) (zip (items ?d) (items ?s))\<rparr>, [])"
    unfolding np_divide_def using wfd wfs sh f_div_flags_sub by (rule ufunc2_same_shape)
  have its: "map (\<lambda>(x, y). f_div x y) (zip (items ?d) (items ?s))
               = map (\<lambda>(n, r). f_div (f_sub n r) (f_add n r)) (zip (items nir) (items red))"
    using len by (intro nth_equalityI) simp_all
  show ?thesis
    using d s q its by (simp add: ndvi_def)
qed

lemma ndvi_pixel_nodata:
  assumes "reflectance_sample n" "reflectance_sample r"
    and "f_eq (f_add n r) (Num 0) \<or> n = NaN \<or> r = NaN"
  shows "f_div (f_sub n r) (f_add n r) = NaN"
proof (cases n)
  case (Num a)
  show ?thesis
  proof (cases r)
    case (Num b)
    with \<open>n = Num a\<close> assms have "0 \<le> a" "0 \<le> b" "a + b = 0" by simp_all
    then have "a = 0" "b = 0" by linarith+
    with Num \<open>n = Num a\<close> show ?thesis by (simp add: f_sub_def)
  qed (use Num assms in \<open>simp_all add: f_sub_def\<close>)
qed (use assms in \<open>simp_all add: f_sub_def\<close>)

lemma ndvi_pixel_not_inf:
  assumes "reflectance_sample n" "reflectance_sample r"
  shows "\<not> is_inf (f_div (f_sub n r) (f_add n r))"
proof (cases n)
  case (Num a)
  show ?thesis
  proof (cases r)
    case (Num b)
    with \<open>n = Num a\<close> assms have "0 \<le> a" "0 \<le> b" by simp_all
    then have "a + b = 0 \<Longrightarrow> a - b = 0" by linarith
    with Num \<open>n = Num a\<close> show ?thesis by (auto simp: f_sub_def is_inf_def)
  qed (use Num assms in \<open>simp_all add: f_sub_def is_inf_def\<close>)
qed (use assms in \<open>simp_all add: f_sub_def is_inf_def\<close>)

lemma of_rows_wf2 [simp]:
  "wf (of_rows [[a]])" "wf (of_rows [[a, b], [c, d]])"
  by (simp_all add: wf_def of_rows_def)

lemma list_all_nth: "list_all P xs \<Longrightarrow> k < length xs \<Longrightarrow> P (xs ! k)"
  by (simp add: list_all_length)

section \<open>Properties of the NDVI computation\<close>

text \<open>
  C1. Under the error state set by \<open>np.seterr(divide="ignore", invalid="ignore")\<close>, whatever
  the state was before, the NDVI of two reflectance arrays of the same shape (samples NaN
  or finite and not negative) is computed without raising and without any report. At
  every pixel where \<open>nir + red\<close> compares equal to zero, or where either operand is NaN,
  the result is NaN, and no pixel of the result is infinite.
\<close>

theorem ndvi_zero_denominator_nodata:
  assumes "wf nir" "wf red" "same_shape nir red"
    and "reflectance_array nir" "reflectance_array red"
  shows "\<exists>out. ndvi (seterr_ignore es) nir red = Inr (out, [])
           \<and> same_shape out nir \<and> length (items out) = length (items nir)
           \<and> (\<forall>k < length (items nir).
                 f_eq (f_add (items nir ! k) (items red ! k)) (Num 0)
                   \<or> items nir ! k = NaN \<or> items red ! k = NaN
                 \<longrightarrow> items out ! k = NaN)
           \<and> (\<forall>k < length (items nir). \<not> is_inf (items out ! k))"
proof -
  let ?out = "\<lparr>nrows = nrows nir, ncols = ncols nir,
                items = map (\<lambda>(n, r). f_div (f_sub n r) (f_add n r))
                            (zip (items nir) (items red))\<rparr>"
  have len: "length (items nir) = length (items red)"
    using assms(1-3) by (simp add: wf_def same_shape_def)
  have run: "ndvi (seterr_ignore es) nir red = Inr (?out, [])"
    using assms(1-3) by (rule ndvi_same_shape)
  have item: "items ?out ! k
                = f_div (f_sub (items nir ! k) (items red ! k)) (f_add (items nir ! k) (items red ! k))"
    if "k < length (items nir)" for k
    using that len by simp
  have rn: "reflectance_sample (items nir ! k)" and rr: "reflectance_sample (items red ! k)"
    if "k < length (items nir)" for k
    using that len assms(4,5) by (simp_all add: reflectance_array_def list_all_nth)
  have nodata: "items ?out ! k = NaN"
    if "k < length (items nir)"
      and "f_eq (f_add (items nir ! k) (items red ! k)) (Num 0)
             \<or> items nir ! k = NaN \<or> items red ! k = NaN" for k
    unfolding item [OF that(1)]
    by (rule ndvi_pixel_nodata [OF rn [OF that(1)] rr [OF that(1)] that(2)])
  have noinf: "\<not> is_inf (items ?out ! k)" if "k < length (items nir)" for k
    unfolding item [OF that]
    by (rule ndvi_pixel_not_inf [OF rn [OF that] rr [OF that]])
  have "same_shape ?out nir" "length (items ?out) = length (items nir)"
    using len by (simp_all add: same_shape_def)
  with run nodata noinf show ?thesis by blast
qed

theorem ndvi_zero_denominator_nodata_witness:
  "wf (of_rows [[Num 0, NaN], [Num (1/2), Num 0]])
   \<and> wf (of_rows [[Num 0, Num (1/5)], [Num (1/5), NaN]])
   \<and> same_shape (of_rows [[Num 0, NaN], [Num (1/2), Num 0]])
                 (of_rows [[Num 0, Num (1/5)], [Num (1/5), NaN]])
   \<and> reflectance_array (of_rows [[Num 0, NaN], [Num (1/2), Num 0]])
   \<and> reflectance_array (of_rows [[Num 0, Num (1/5)], [Num (1/5), NaN]])
   \<and> f_eq (f_add (Num 0) (Num 0)) (Num 0)
   \<and> (\<exists>out. ndvi (seterr_ignore default_errstate)
                (of_rows [[Num 0, NaN], [Num (1/2), Num 0]])
                (of_rows [[Num 0, Num (1/5)], [Num (1/5), NaN]]) = Inr (out, [])
          \<and> items out ! 0 = NaN \<and> items out ! 1 = NaN \<and> items out ! 3 = NaN
          \<and> \<not> is_inf (items out ! 2))"
proof -
  let ?nir = "of_rows [[Num 0, NaN], [Num (1/2), Num 0]]"
  let ?red = "of_rows [[Num 0, Num (1/5)], [Num (1/5), NaN]]"
  have n: "items ?nir = [Num 0, NaN, Num (1/2), Num 0]"
    and r: "items ?red = [Num 0, Num (1/5), Num (1/5), NaN]"
    by (simp_all add: of_rows_def)
  have h: "wf ?nir" "wf ?red" "same_shape ?nir ?red"
    "reflectance_array ?nir" "reflectance_array ?red"
    by (simp_all add: same_shape_def reflectance_array_def n r) (simp_all add: of_rows_def)
  obtain out where run: "ndvi (seterr_ignore default_errstate) ?nir ?red = Inr (out, [])"
    and nd: "\<forall>k < length (items ?nir).
               f_eq (f_add (items ?nir ! k) (items ?red ! k)) (Num 0)
                 \<or> items ?nir ! k = NaN \<or> items ?red ! k = NaN
               \<longrightarrow> items out ! k = NaN"
    and ni: "\<forall>k < length (items ?nir). \<not> is_inf (items out ! k)"
    using ndvi_zero_denominator_nodata [OF h, of default_errstate] by blast
  have "items out ! 0 = NaN" using nd [rule_format, of 0] by (simp add: n r)
  moreover have "items out ! 1 = NaN" using nd [rule_format, of 1] by (simp add: n r)
  moreover have "items out ! 3 = NaN" using nd [rule_format, of 3] by (simp add: n r)
  moreover have "\<not> is_inf (items out ! 2)" using ni [rule_format, of 2] by (simp add: n)
  ultimately show ?thesis using h run by auto
qed

text \<open>
  The restriction to samples that are not negative is needed: a negative sample beside its
  positive counterpart gives a zero denominator under a non-zero numerator.
\<close>

lemma ndvi_negative_sample_infinite:
  "ndvi (seterr_ignore default_errstate) (of_rows [[Num 1]]) (of_rows [[Num (- 1)]])
     = Inr (of_rows [[PosInf]], [])"
  by (subst ndvi_same_shape) (simp_all add: same_shape_def wf_def of_rows_def f_sub_def)

text \<open>
  C3. For arrays of the same shape the NDVI is \<open>(nir - red) / (nir + red)\<close> pixel by pixel,
  in floating-point arithmetic; where both samples are finite and their sum is not zero it
  is the quotient of the difference by the sum. For \<open>nir = [[0.5]]\<close> and \<open>red = [[0.2]]\<close>
  the result is \<open>[[(0.5 - 0.2) / (0.5 + 0.2)]]\<close>, which is 0.4286 when rounded to four decimal
  places.
\<close>

theorem ndvi_formula:
  "(wf nir \<and> wf red \<and> same_shape nir red \<longrightarrow>
      (\<exists>out. ndvi (seterr_ignore es) nir red = Inr (out, [])
         \<and> same_shape out nir \<and> length (items out) = length (items nir)
         \<and> (\<forall>k < length (items nir).
               items out ! k = f_div (f_sub (items nir ! k) (items red ! k))
                                     (f_add (items nir ! k) (items red ! k)))
         \<and> (\<forall>k < length (items nir). \<forall>a b.
               items nir ! k = Num a \<and> items red ! k = Num b \<and> a + b \<noteq> 0
               \<longrightarrow> items out ! k = Num ((a - b) / (a + b)))))
   \<and> ndvi (seterr_ignore default_errstate) (of_rows [[Num (1/2)]]) (of_rows [[Num (1/5)]])
       = Inr (of_rows [[Num ((1/2 - 1/5) / (1/2 + 1/5))]], [])
   \<and> real_of_int (round ((1/2 - 1/5) / (1/2 + 1/5) * 10000 :: real)) / 10000 = 4286 / 10000"
proof -
  have general: "\<exists>out. ndvi (seterr_ignore es) nir red = Inr (out, [])
         \<and> same_shape out nir \<and> length (items out) = length (items nir)
         \<and> (\<forall>k < length (items nir).
               items out ! k = f_div (f_sub (items nir ! k) (items red ! k))
                                     (f_add (items nir ! k) (items red ! k)))
         \<and> (\<forall>k < length (items nir). \<forall>a b.
               items nir ! k = Num a \<and> items red ! k = Num b \<and> a + b \<noteq> 0
               \<longrightarrow> items out ! k = Num ((a - b) / (a + b)))"
    if h: "wf nir" "wf red" "same_shape nir red"
  proof -
    let ?out = "\<lparr>nrows = nrows nir, ncols = ncols nir,
                  items = map (\<lambda>(n, r). f_div (f_sub n r) (f_add n r))
                              (zip (items nir) (items red))\<rparr>"
    have len: "length (items nir) = length (items red)"
      using h by (simp add: wf_def same_shape_def)
    have run: "ndvi (seterr_ignore es) nir red = Inr (?out, [])"
      using h by (rule ndvi_same_shape)
    have item: "items ?out ! k
                  = f_div (f_sub (items nir ! k) (items red ! k))
                          (f_add (items nir ! k) (items red ! k))"
      if "k < length (items nir)" for k
      using that len by simp
    have fin: "items ?out ! k = Num ((a - b) / (a + b))"
      if "k < length (items nir)" "items nir ! k = Num a" "items red ! k = Num b" "a + b \<noteq> 0"
      for k a b
      using item [OF that(1)] that(2-4) by (simp add: f_sub_def)
    have "same_shape ?out nir" "length (items ?out) = length (items nir)"
      using len by (simp_all add: same_shape_def)
    with run item fin show ?thesis by blast
  qed
  have example: "ndvi (seterr_ignore default_errstate) (of_rows [[Num (1/2)]]) (of_rows [[Num (1/5)]])
       = Inr (of_rows [[Num ((1/2 - 1/5) / (1/2 + 1/5))]], [])"
    by (subst ndvi_same_shape) (simp_all add: same_shape_def wf_def of_rows_def f_sub_def)
  have "(1/2 - 1/5) / (1/2 + 1/5) * 10000 = (30000 / 7 :: real)" by simp
  then have "round ((1/2 - 1/5) / (1/2 + 1/5) * 10000 :: real) = 4286"
    by (simp add: round_def)
  then show ?thesis
    using general example by simp
qed

theorem ndvi_formula_witness:
  "wf (of_rows [[Num (4/5)]]) \<and> wf (of_rows [[Num (1/5)]])
   \<and> same_shape (of_rows [[Num (4/5)]]) (of_rows [[Num (1/5)]])
   \<and> (\<exists>out. ndvi (seterr_ignore default_errstate) (of_rows [[Num (4/5)]]) (of_rows [[Num (1/5)]])
                = Inr (out, [])
          \<and> items out ! 0 = Num (3/5))"
proof -
  let ?nir = "of_rows [[Num (4/5)]]"
  let ?red = "of_rows [[Num (1/5)]]"
  have h: "wf ?nir \<and> wf ?red \<and> same_shape ?nir ?red"
    by (simp add: same_shape_def) (simp add: of_rows_def)
  have n: "items ?nir = [Num (4/5)]" and r: "items ?red = [Num (1/5)]"
    by (simp_all add: of_rows_def)
  obtain out where run: "ndvi (seterr_ignore default_errstate) ?nir ?red = Inr (out, [])"
    and fin: "\<forall>k < length (items ?nir). \<forall>a b.
               items ?nir ! k = Num a \<and> items ?red ! k = Num b \<and> a + b \<noteq> 0
               \<longrightarrow> items out ! k = Num ((a - b) / (a + b))"
    using ndvi_formula [of ?nir ?red default_errstate] h by blast
  have "items out ! 0 = Num ((4/5 - 1/5) / (4/5 + 1/5))"
    using fin [rule_format, of 0 "4/5" "1/5"] by (simp add: n r)
  then have "items out ! 0 = Num (3/5)" by simp
  with h run show ?thesis by blast
qed

section \<open>Scope of the error-state change\<close>

lemma handle_fpe_after_seterr:
  "handle_fpe (seterr_ignore es) fs
     = handle_fpe es (filter (\<lambda>f. f = Overflow \<or> f = Underflow) fs)"
proof (induction fs)
  case Nil
  show ?case by simp
next
  case (Cons f fs)
  then show ?case by (cases f) (auto split: sum.splits)
qed

text \<open>
  C4, as stated, fails. \<open>np.seterr\<close> changes numpy's one error state, and nothing restores
  it: a division of 1 by 0 that has nothing to do with the NDVI reports a
  \<open>RuntimeWarning\<close> before the call and nothing after it, also once the NDVI has been
  computed.
\<close>

theorem seterr_scope_counterexample:
  "np_divide default_errstate (of_rows [[Num 1]]) (of_rows [[Num 0]])
     = Inr (of_rows [[PosInf]], [RuntimeWarning DivideByZero])
   \<and> (case run_ndvi (run_seterr \<lparr>errs = default_errstate, ss_nir = of_rows [[Num (1/2)]],
                                  ss_red = of_rows [[Num (1/5)]], ndvi_array = None,
                                  reported = []\<rparr>) of
         Inl e \<Rightarrow> Inl e
       | Inr st \<Rightarrow> np_divide (errs st) (of_rows [[Num 1]]) (of_rows [[Num 0]]))
     = Inr (of_rows [[PosInf]], [])"
proof -
  have bc: "broadcast2 (of_rows [[Num 1]]) (of_rows [[Num 0]])
              = Inr (of_rows [[Num 1]], of_rows [[Num 0]])"
    by (rule broadcast2_same_shape) (simp_all add: same_shape_def wf_def of_rows_def)
  have before: "np_divide default_errstate (of_rows [[Num 1]]) (of_rows [[Num 0]])
     = Inr (of_rows [[PosInf]], [RuntimeWarning DivideByZero])"
    by (simp add: np_divide_def ufunc2_def bc)
       (simp add: of_rows_def raised_def fpe_order_def default_errstate_def)
  have nd: "ndvi (seterr_ignore default_errstate) (of_rows [[Num (1/2)]]) (of_rows [[Num (1/5)]])
       = Inr (of_rows [[Num (3/7)]], [])"
    by (subst ndvi_same_shape) (simp_all add: same_shape_def wf_def of_rows_def f_sub_def)
  have after: "np_divide (seterr_ignore default_errstate) (of_rows [[Num 1]]) (of_rows [[Num 0]])
     = Inr (of_rows [[PosInf]], [])"
    by (simp add: np_divide_def ufunc2_def bc)
       (simp add: of_rows_def raised_def fpe_order_def)
  show ?thesis
    using before after by (simp add: run_ndvi_def run_seterr_def nd)
qed

text \<open>
  C4, amended. The suppression is a setting of the whole interpreter: \<open>np.seterr\<close> sets the
  modes for divide and invalid to \<open>ignore\<close> in numpy's error state and leaves the modes for
  over and under as they were; computing the NDVI does not restore the earlier modes. So
  every operation carried out afterwards, inside or outside the NDVI computation, reports
  neither a division by zero nor an invalid operation, and reports overflow and underflow
  as it would have before.
\<close>

theorem seterr_is_process_wide:
  "errs (run_seterr st) = (errs st)\<lparr>err_divide := Ignore, err_invalid := Ignore\<rparr>
   \<and> (\<forall>st'. run_ndvi (run_seterr st) = Inr st' \<longrightarrow> errs st' = errs (run_seterr st))
   \<and> (\<forall>fs. handle_fpe (errs (run_seterr st)) fs
             = handle_fpe (errs st) (filter (\<lambda>f. f = Overflow \<or> f = Underflow) fs))"
proof -
  have "errs (run_seterr st) = (errs st)\<lparr>err_divide := Ignore, err_invalid := Ignore\<rparr>"
    by (simp add: run_seterr_def seterr_ignore_def seterr_def)
  moreover have "errs st' = errs (run_seterr st)" if "run_ndvi (run_seterr st) = Inr st'" for st'
    using that by (auto simp: run_ndvi_def split: sum.splits)
  moreover have "handle_fpe (errs (run_seterr st)) fs
             = handle_fpe (errs st) (filter (\<lambda>f. f = Overflow \<or> f = Underflow) fs)" for fs
    by (simp add: run_seterr_def handle_fpe_after_seterr)
  ultimately show ?thesis by blast
qed

theorem seterr_is_process_wide_witness:
  "\<exists>st'. run_ndvi (run_seterr \<lparr>errs = default_errstate, ss_nir = of_rows [[Num (1/2)]],
                               ss_red = of_rows [[Num (1/5)]], ndvi_array = None,
                               reported = []\<rparr>) = Inr st'
         \<and> errs st' = \<lparr>err_divide = Ignore, err_over = Warn, err_under = Ignore,
                       err_invalid = Ignore\<rparr>
         \<and> ndvi_array st' = Some (of_rows [[Num (3/7)]])"
proof -
  let ?st = "\<lparr>errs = default_errstate, ss_nir = of_rows [[Num (1/2)]],
              ss_red = of_rows [[Num (1/5)]], ndvi_array = None, reported = []\<rparr>"
  have nd: "ndvi (seterr_ignore default_errstate) (of_rows [[Num (1/2)]]) (of_rows [[Num (1/5)]])
       = Inr (of_rows [[Num (3/7)]], [])"
    by (subst ndvi_same_shape) (simp_all add: same_shape_def wf_def of_rows_def f_sub_def)
  then obtain st' where run: "run_ndvi (run_seterr ?st) = Inr st'"
    and arr: "ndvi_array st' = Some (of_rows [[Num (3/7)]])"
    by (simp add: run_ndvi_def run_seterr_def)
  have "errs st' = errs (run_seterr ?st)"
    using seterr_is_process_wide [of ?st] run by blast
  also have "\<dots> = (errs ?st)\<lparr>err_divide := Ignore, err_invalid := Ignore\<rparr>"
    using seterr_is_process_wide [of ?st] by blast
  finally have "errs st' = \<lparr>err_divide = Ignore, err_over = Warn, err_under = Ignore,
                            err_invalid = Ignore\<rparr>"
    by (simp add: default_errstate_def)
  with run arr show ?thesis by blast
qed

section \<open>Properties of the forest mask\<close>

text \<open>
  C6. For every categorical band and every set of forest codes the forest mask has the
  shape of the band and holds only 0 and 1. A pixel is 1 exactly when it is not a no-data
  pixel and its code is in the forest code set; every other pixel, and every no-data pixel
  in particular, is 0. Where the raster defines no no-data value, or one outside the forest
  codes, a pixel is 1 exactly when its code is in the set. For the band
  \<open>[[1,2,3],[4,5,1]]\<close> and the codes \<open>{2,4}\<close> the mask is \<open>[[0,1,0],[1,0,0]]\<close>.
\<close>

theorem forest_mask_membership:
  "same_shape (forest_mask band fc) (codes band)
   \<and> length (items (forest_mask band fc)) = length (items (codes band))
   \<and> (\<forall>k < length (items (codes band)).
         items (forest_mask band fc) ! k = 0 \<or> items (forest_mask band fc) ! k = 1)
   \<and> (\<forall>k < length (items (codes band)).
         items (forest_mask band fc) ! k = 1
           \<longleftrightarrow> Some (items (codes band) ! k) \<noteq> nodata_value band
               \<and> items (codes band) ! k \<in> fc)
   \<and> (\<forall>k < length (items (codes band)).
         Some (items (codes band) ! k) = nodata_value band
           \<longrightarrow> items (forest_mask band fc) ! k = 0)
   \<and> ((\<forall>v. nodata_value band = Some v \<longrightarrow> v \<notin> fc) \<longrightarrow>
        (\<forall>k < length (items (codes band)).
           items (forest_mask band fc) ! k = (if items (codes band) ! k \<in> fc then 1 else 0)))
   \<and> forest_mask \<lparr>codes = of_rows [[1, 2, 3], [4, 5, 1]], nodata_value = None\<rparr> {2, 4}
       = of_rows [[0, 1, 0], [1, 0, 0]]"
proof -
  have ex: "forest_mask \<lparr>codes = of_rows [[1, 2, 3], [4, 5, 1]], nodata_value = None\<rparr> {2, 4}
       = of_rows [[0, 1, 0], [1, 0, 0]]"
    by (simp add: forest_mask_def nd_map_def of_rows_def)
  have gen: "items (forest_mask band fc) ! k =
          (if Some (items (codes band) ! k) = nodata_value band then 0
           else if items (codes band) ! k \<in> fc then 1 else 0)"
    if "k < length (items (codes band))" for k
    using that by (simp add: forest_mask_def)
  have sh: "same_shape (forest_mask band fc) (codes band)"
    "length (items (forest_mask band fc)) = length (items (codes band))"
    by (simp_all add: forest_mask_def same_shape_def)
  show ?thesis
    using ex sh by (auto simp: gen)
qed

theorem forest_mask_membership_witness:
  "Some (items (of_rows [[2, 255], [4, 7]]) ! 1) = Some (255::int)
   \<and> (255::int) \<notin> {2, 4}
   \<and> items (forest_mask \<lparr>codes = of_rows [[2, 255], [4, 7]], nodata_value = Some 255\<rparr> {2, 4}) ! 0 = 1
   \<and> items (forest_mask \<lparr>codes = of_rows [[2, 255], [4, 7]], nodata_value = Some 255\<rparr> {2, 4}) ! 1 = 0
   \<and> items (forest_mask \<lparr>codes = of_rows [[2, 255], [4, 7]], nodata_value = Some 255\<rparr> {2, 4}) ! 2 = 1
   \<and> items (forest_mask \<lparr>codes = of_rows [[2, 255], [4, 7]], nodata_value = Some 255\<rparr> {2, 4}) ! 3 = 0"
proof -
  let ?band = "\<lparr>codes = of_rows [[2, 255], [4, 7]], nodata_value = Some 255\<rparr>"
  have its: "items (codes ?band) = [2, 255, 4, 7]" by (simp add: of_rows_def)
  have nd: "\<forall>v. nodata_value ?band = Some v \<longrightarrow> v \<notin> {2, 4}" by simp
  have "\<forall>k < length (items (codes ?band)).
           items (forest_mask ?band {2, 4}) ! k
             = (if items (codes ?band) ! k \<in> {2, 4} then 1 else 0)"
    using forest_mask_membership [of ?band "{2, 4}"] nd by blast
  then have "\<forall>k < 4. items (forest_mask ?band {2, 4}) ! k
             = (if [2, 255, 4, 7 :: int] ! k \<in> {2, 4} then 1 else 0)"
    unfolding its by simp
  then show ?thesis by (simp add: of_rows_def)
qed

section \<open>Properties of the percentage adapter\<close>

lemma percent_entries_nonzero:
  "tot \<noteq> 0 \<Longrightarrow>
     percent_entries tot es = Inr (map (\<lambda>(k, c). (k, round1 (100 * real c / real tot))) es)"
  by (induction es) (auto simp: py_truediv_def)

lemma round1_close: "\<bar>round1 x - x\<bar> \<le> 1 / 20"
proof -
  define r where "r = real_of_int (round (x * 10))"
  have a: "\<bar>r - x * 10\<bar> \<le> 1 / 2"
    unfolding r_def by (rule of_int_round_abs_le)
  have e: "round1 x - x = (r - x * 10) / 10"
    unfolding round1_def r_def by (simp add: diff_divide_distrib)
  have b: "\<bar>(r - x * 10) / 10\<bar> = \<bar>r - x * 10\<bar> / 10"
    by simp
  show ?thesis
    unfolding e b using a by simp
qed

lemma round1_tenths: "\<exists>n::int. round1 x = real_of_int n / 10"
  by (auto simp: round1_def)

text \<open>
  C7. The percentage adapter never raises. When the counts sum to 0, the empty record
  included, it returns the empty mapping. Otherwise it returns the labels of the record in
  order, each with \<open>100 * count / total\<close> rounded to one decimal place: a whole number of
  tenths at most 0.05 away from the exact percentage. For \<open>{"forest": 80, "water": 20}\<close>
  it returns \<open>{"forest": 80.0, "water": 20.0}\<close>.
\<close>

theorem to_percentages_rounded:
  "(\<exists>out. to_percentages zr = Inr out)
   \<and> (sum_list (map snd zr) = 0 \<longrightarrow> to_percentages zr = Inr [])
   \<and> (sum_list (map snd zr) \<noteq> 0 \<longrightarrow>
        (\<exists>out. to_percentages zr = Inr out \<and> map fst out = map fst zr
           \<and> (\<forall>i < length zr.
                 snd (out ! i)
                   = round1 (100 * real (snd (zr ! i)) / real (sum_list (map snd zr)))
                 \<and> \<bar>snd (out ! i) - 100 * real (snd (zr ! i)) / real (sum_list (map snd zr))\<bar>
                     \<le> 1 / 20
                 \<and> (\<exists>n::int. snd (out ! i) = real_of_int n / 10))))
   \<and> to_percentages [(''forest'', 80), (''water'', 20)] = Inr [(''forest'', 80), (''water'', 20)]
   \<and> to_percentages ([] :: (string \<times> nat) list) = Inr []"
proof -
  let ?tot = "sum_list (map snd zr)"
  let ?out = "map (\<lambda>(k, c). (k, round1 (100 * real c / real ?tot))) zr"
  have zero: "to_percentages zr = Inr []" if "?tot = 0"
    using that by (simp add: to_percentages_def)
  have run: "to_percentages zr = Inr ?out" if "?tot \<noteq> 0"
    by (simp only: to_percentages_def Let_def that if_False percent_entries_nonzero [OF that])
  have keys: "map fst ?out = map fst zr"
    by (induction zr) auto
  have val: "snd (?out ! i) = round1 (100 * real (snd (zr ! i)) / real ?tot)"
    if "i < length zr" for i
    using that by (simp add: case_prod_unfold)
  have nonzero: "\<exists>out. to_percentages zr = Inr out \<and> map fst out = map fst zr
           \<and> (\<forall>i < length zr.
                 snd (out ! i) = round1 (100 * real (snd (zr ! i)) / real ?tot)
                 \<and> \<bar>snd (out ! i) - 100 * real (snd (zr ! i)) / real ?tot\<bar> \<le> 1 / 20
                 \<and> (\<exists>n::int. snd (out ! i) = real_of_int n / 10))"
    if "?tot \<noteq> 0"
  proof -
    have "\<forall>i < length zr.
            snd (?out ! i) = round1 (100 * real (snd (zr ! i)) / real ?tot)
            \<and> \<bar>snd (?out ! i) - 100 * real (snd (zr ! i)) / real ?tot\<bar> \<le> 1 / 20
            \<and> (\<exists>n::int. snd (?out ! i) = real_of_int n / 10)"
    proof (intro allI impI conjI)
      fix i assume i: "i < length zr"
      show "snd (?out ! i) = round1 (100 * real (snd (zr ! i)) / real ?tot)"
        by (rule val [OF i])
      show "\<bar>snd (?out ! i) - 100 * real (snd (zr ! i)) / real ?tot\<bar> \<le> 1 / 20"
        unfolding val [OF i] by (rule round1_close)
      show "\<exists>n::int. snd (?out ! i) = real_of_int n / 10"
        unfolding val [OF i] by (rule round1_tenths)
    qed
    with run [OF that] keys show ?thesis by blast
  qed
  have ex1: "to_percentages [(''forest'', 80), (''water'', 20)]
               = Inr [(''forest'', 80), (''water'', 20)]"
    by (simp add: to_percentages_def py_truediv_def round1_def)
  have ex2: "to_percentages ([] :: (string \<times> nat) list) = Inr []"
    by (simp add: to_percentages_def)
  have ret: "\<exists>out. to_percentages zr = Inr out"
    using zero run by (cases "?tot = 0") blast+
  show ?thesis
    using ret zero nonzero ex1 ex2 by blast
qed

theorem to_percentages_rounded_witness:
  "sum_list (map snd [(''forest'', 2 :: nat), (''water'', 1)]) \<noteq> 0
   \<and> sum_list (map snd [(''sea'', 0 :: nat)]) = 0
   \<and> to_percentages [(''sea'', 0)] = Inr []
   \<and> (\<exists>out. to_percentages [(''forest'', 2), (''water'', 1)] = Inr out
          \<and> map fst out = [''forest'', ''water'']
          \<and> snd (out ! 0) = 667 / 10 \<and> snd (out ! 1) = 333 / 10)"
proof -
  let ?zr = "[(''forest'', 2 :: nat), (''water'', 1)]"
  have t: "sum_list (map snd ?zr) = 3" by simp
  have z: "to_percentages [(''sea'', 0)] = Inr []"
    using to_percentages_rounded [of "[(''sea'', 0)]"] by simp
  obtain out where run: "to_percentages ?zr = Inr out"
    and keys: "map fst out = map fst ?zr"
    and vals: "\<forall>i < length ?zr.
                 snd (out ! i) = round1 (100 * real (snd (?zr ! i)) / real (sum_list (map snd ?zr)))"
    using to_percentages_rounded [of ?zr] t by auto
  have r0: "round1 (200 / 3) = 667 / 10"
    by (simp add: round1_def round_def)
  have r1: "round1 (100 / 3) = 333 / 10"
    by (simp add: round1_def round_def)
  have "snd (out ! 0) = 667 / 10"
    using vals [rule_format, of 0] r0 by simp
  moreover have "snd (out ! 1) = 333 / 10"
    using vals [rule_format, of 1] r1 by simp
  ultimately show ?thesis
    using run keys z by auto
qed

section \<open>Properties of the category map\<close>

lemma parsed_rows_simps [simp]:
  "parsed_rows parse [] = []"
  "parse r = None \<Longrightarrow> parsed_rows parse (r # rs) = parsed_rows parse rs"
  "parse r = Some e \<Longrightarrow> parsed_rows parse (r # rs) = e # parsed_rows parse rs"
  by (simp_all add: parsed_rows_def map_filter_simps)

lemma parsed_rows_member:
  "i < length rows \<Longrightarrow> parse (rows ! i) = Some e \<Longrightarrow> e \<in> set (parsed_rows parse rows)"
proof (induction rows arbitrary: i)
  case Nil
  then show ?case by simp
next
  case (Cons r rs)
  show ?case
  proof (cases i)
    case 0
    with Cons.prems show ?thesis by simp
  next
    case (Suc i')
    with Cons.prems have "e \<in> set (parsed_rows parse rs)"
      by (intro Cons.IH [of i']) simp_all
    then show ?thesis by (cases "parse r") simp_all
  qed
qed

lemma parsed_rows_filter:
  "parsed_rows parse (filter (\<lambda>r. parse r \<noteq> None) rows) = parsed_rows parse rows"
proof (induction rows)
  case Nil
  show ?case by simp
next
  case (Cons r rs)
  show ?case
  proof (cases "parse r")
    case None
    then show ?thesis using Cons.IH by simp
  next
    case (Some e)
    then show ?thesis using Cons.IH by simp
  qed
qed

lemma consistent_subset: "consistent S \<Longrightarrow> T \<subseteq> S \<Longrightarrow> consistent T"
  unfolding consistent_def by blast

lemma map_of_member: "distinct (map fst m) \<Longrightarrow> map_of m c = Some l \<longleftrightarrow> (c, l) \<in> set m"
  by simp

lemma map_of_absent: "map_of m c = None \<longleftrightarrow> c \<notin> fst ` set m"
  by (simp add: map_of_eq_None_iff)

lemma add_rows_conflict:
  assumes "distinct (map fst m)"
    and "\<not> consistent (set m \<union> set (parsed_rows parse rows))"
  shows "add_rows parse rows m ws = Inl DuplicateCategoryError"
  using assms
proof (induction rows arbitrary: m ws)
  case Nil
  have "consistent (set m)"
    unfolding consistent_def using Nil.prems(1) by (metis map_of_member option.inject)
  with Nil.prems(2) show ?case by simp
next
  case (Cons r rs)
  show ?case
  proof (cases "parse r")
    case None
    with Cons show ?thesis by simp
  next
    case (Some e)
    obtain c l where e: "e = (c, l)" by (cases e)
    show ?thesis
    proof (cases "map_of m c")
      case None
      then have d: "distinct (map fst (m @ [(c, l)]))"
        using Cons.prems(1) by (simp add: map_of_absent)
      have "set (m @ [(c, l)]) \<union> set (parsed_rows parse rs)
              = set m \<union> set (parsed_rows parse (r # rs))"
        using Some e by simp
      with Cons.prems(2)
      have "\<not> consistent (set (m @ [(c, l)]) \<union> set (parsed_rows parse rs))"
        by metis
      from Cons.IH [OF d this] show ?thesis
        using Some e None by simp
    next
      case (Some l')
      show ?thesis
      proof (cases "l' = l")
        case True
        with Some Cons.prems(1) have "(c, l) \<in> set m"
          by (simp add: map_of_member)
        then have "set m \<union> set (parsed_rows parse rs)
                     = set m \<union> set (parsed_rows parse (r # rs))"
          using \<open>parse r = Some e\<close> e by auto
        with Cons.prems(2) have "\<not> consistent (set m \<union> set (parsed_rows parse rs))"
          by metis
        from Cons.IH [OF Cons.prems(1) this] show ?thesis
          using \<open>parse r = Some e\<close> e Some True by simp
      next
        case False
        then show ?thesis
          using \<open>parse r = Some e\<close> e Some by simp
      qed
    qed
  qed
qed

lemma add_rows_consistent:
  assumes "distinct (map fst m)"
    and "consistent (set m \<union> set (parsed_rows parse rows))"
  shows "\<exists>m'. add_rows parse rows m ws
                = Inr (m', ws @ map SkippedRow (filter (\<lambda>r. parse r = None) rows))
             \<and> set m' = set m \<union> set (parsed_rows parse rows)
             \<and> distinct (map fst m')"
  using assms
proof (induction rows arbitrary: m ws)
  case Nil
  then show ?case by simp
next
  case (Cons r rs)
  show ?case
  proof (cases "parse r")
    case None
    with Cons.prems have "consistent (set m \<union> set (parsed_rows parse rs))" by simp
    from Cons.IH [OF Cons.prems(1) this, of "ws @ [SkippedRow r]"] show ?thesis
      using None by simp
  next
    case (Some e)
    obtain c l where e: "e = (c, l)" by (cases e)
    have full: "set (parsed_rows parse (r # rs)) = insert (c, l) (set (parsed_rows parse rs))"
      using Some e by simp
    show ?thesis
    proof (cases "map_of m c")
      case None
      then have d: "distinct (map fst (m @ [(c, l)]))"
        using Cons.prems(1) by (simp add: map_of_absent)
      have "consistent (set (m @ [(c, l)]) \<union> set (parsed_rows parse rs))"
        using Cons.prems(2) full by (elim consistent_subset) auto
      from Cons.IH [OF d this, of ws] show ?thesis
        using \<open>parse r = Some e\<close> e None full by auto
    next
      case (Some l')
      then have mem: "(c, l') \<in> set m"
        using Cons.prems(1) by (simp add: map_of_member)
      then have "l' = l"
        using Cons.prems(2) full unfolding consistent_def by blast
      have "consistent (set m \<union> set (parsed_rows parse rs))"
        using Cons.prems(2) full by (elim consistent_subset) auto
      from Cons.IH [OF Cons.prems(1) this, of ws] show ?thesis
        using \<open>parse r = Some e\<close> e Some \<open>l' = l\<close> mem full by auto
    qed
  qed
qed

lemma add_rows_skip:
  "add_rows parse rows m ws =
     (case add_rows parse (filter (\<lambda>r. parse r \<noteq> None) rows) m [] of
        Inl e \<Rightarrow> Inl e
      | Inr (m', ws') \<Rightarrow> Inr (m', ws @ map SkippedRow (filter (\<lambda>r. parse r = None) rows)))"
proof (induction rows arbitrary: m ws)
  case Nil
  show ?case by simp
next
  case (Cons r rs)
  show ?case
  proof (cases "parse r")
    case None
    have f1: "filter (\<lambda>r. parse r \<noteq> None) (r # rs) = filter (\<lambda>r. parse r \<noteq> None) rs"
      and f2: "filter (\<lambda>r. parse r = None) (r # rs) = r # filter (\<lambda>r. parse r = None) rs"
      using None by simp_all
    have "add_rows parse (r # rs) m ws = add_rows parse rs m (ws @ [SkippedRow r])"
      using None by simp
    then show ?thesis
      unfolding f1 f2 using Cons.IH [of m "ws @ [SkippedRow r]"]
      by (simp split: sum.splits)
  next
    case (Some e)
    obtain c l where e: "e = (c, l)" by (cases e)
    have f1: "filter (\<lambda>r. parse r \<noteq> None) (r # rs) = r # filter (\<lambda>r. parse r \<noteq> None) rs"
      and f2: "filter (\<lambda>r. parse r = None) (r # rs) = filter (\<lambda>r. parse r = None) rs"
      using Some by simp_all
    show ?thesis
    proof (cases "map_of m c")
      case None
      have "add_rows parse (r # rs) m ws = add_rows parse rs (m @ [(c, l)]) ws"
        and "add_rows parse (r # filter (\<lambda>r. parse r \<noteq> None) rs) m []
               = add_rows parse (filter (\<lambda>r. parse r \<noteq> None) rs) (m @ [(c, l)]) []"
        using \<open>parse r = Some e\<close> e None by simp_all
      then show ?thesis
        unfolding f1 f2 using Cons.IH [of "m @ [(c, l)]" ws] by (simp only:)
    next
      case (Some l')
      show ?thesis
      proof (cases "l' = l")
        case True
        have "add_rows parse (r # rs) m ws = add_rows parse rs m ws"
          and "add_rows parse (r # filter (\<lambda>r. parse r \<noteq> None) rs) m []
                 = add_rows parse (filter (\<lambda>r. parse r \<noteq> None) rs) m []"
          using \<open>parse r = Some e\<close> e Some True by simp_all
        then show ?thesis
          unfolding f1 f2 using Cons.IH [of m ws] by (simp only:)
      next
        case False
        have "add_rows parse (r # rs) m ws = Inl DuplicateCategoryError"
          and "add_rows parse (r # filter (\<lambda>r. parse r \<noteq> None) rs) m []
                 = Inl DuplicateCategoryError"
          using \<open>parse r = Some e\<close> e Some False by simp_all
        then show ?thesis
          unfolding f1 f2 by simp
      qed
    qed
  qed
qed

text \<open>
  C9. Whatever the row format, a lookup table in which some code appears in two parsed rows
  with different labels makes \<open>build_category_map\<close> raise \<open>DuplicateCategoryError\<close>, and
  this is the only way it fails. Rows that do not parse are never fatal: the outcome is
  that of the table without them, and when the table has no conflicting labels the result
  is the map of exactly the parsed entries together with one warning for each skipped row.
  A table with two rows keyed 7 with different labels raises the error.
\<close>

theorem build_category_map_duplicates:
  "(i < j \<and> j < length rows \<and> parse (rows ! i) = Some (c, l1)
      \<and> parse (rows ! j) = Some (c, l2) \<and> l1 \<noteq> l2
      \<longrightarrow> build_category_map parse rows = Inl DuplicateCategoryError)
   \<and> (build_category_map parse rows = Inl DuplicateCategoryError
        \<longleftrightarrow> \<not> consistent (set (parsed_rows parse rows)))
   \<and> (consistent (set (parsed_rows parse rows)) \<longrightarrow>
        (\<exists>m. build_category_map parse rows
                = Inr (m, map SkippedRow (filter (\<lambda>r. parse r = None) rows))
             \<and> set m = set (parsed_rows parse rows) \<and> distinct (map fst m)))
   \<and> build_category_map parse rows =
        (case build_category_map parse (filter (\<lambda>r. parse r \<noteq> None) rows) of
           Inl e \<Rightarrow> Inl e
         | Inr (m, ws) \<Rightarrow> Inr (m, map SkippedRow (filter (\<lambda>r. parse r = None) rows)))
   \<and> build_category_map parse_code_label [(7, ''Sea''), (7, ''Lake'')]
        = Inl DuplicateCategoryError"
proof -
  have bad: "build_category_map parse rows = Inl DuplicateCategoryError"
    if "\<not> consistent (set (parsed_rows parse rows))"
    unfolding build_category_map_def
    by (rule add_rows_conflict) (use that in simp_all)
  have good: "\<exists>m. build_category_map parse rows
                = Inr (m, map SkippedRow (filter (\<lambda>r. parse r = None) rows))
             \<and> set m = set (parsed_rows parse rows) \<and> distinct (map fst m)"
    if "consistent (set (parsed_rows parse rows))"
    using add_rows_consistent [of "[]" parse rows "[]"] that
    by (simp add: build_category_map_def)
  have iff: "build_category_map parse rows = Inl DuplicateCategoryError
        \<longleftrightarrow> \<not> consistent (set (parsed_rows parse rows))"
  proof
    assume e: "build_category_map parse rows = Inl DuplicateCategoryError"
    show "\<not> consistent (set (parsed_rows parse rows))"
    proof
      assume "consistent (set (parsed_rows parse rows))"
      from good [OF this] e show False by auto
    qed
  qed (rule bad)
  have pair: "build_category_map parse rows = Inl DuplicateCategoryError"
    if "i < j" "j < length rows" "parse (rows ! i) = Some (c, l1)"
      "parse (rows ! j) = Some (c, l2)" "l1 \<noteq> l2"
  proof (rule bad)
    have "i < length rows" using that(1,2) by simp
    then have "(c, l1) \<in> set (parsed_rows parse rows)"
      using that(3) by (rule parsed_rows_member)
    moreover have "(c, l2) \<in> set (parsed_rows parse rows)"
      using that(2,4) by (rule parsed_rows_member)
    ultimately
    have "(c, l1) \<in> set (parsed_rows parse rows)" "(c, l2) \<in> set (parsed_rows parse rows)"
      by simp_all
    with that(5) show "\<not> consistent (set (parsed_rows parse rows))"
      unfolding consistent_def by blast
  qed
  have skip: "build_category_map parse rows =
        (case build_category_map parse (filter (\<lambda>r. parse r \<noteq> None) rows) of
           Inl e \<Rightarrow> Inl e
         | Inr (m, ws) \<Rightarrow> Inr (m, map SkippedRow (filter (\<lambda>r. parse r = None) rows)))"
    unfolding build_category_map_def using add_rows_skip [of parse rows "[]" "[]"]
    by (simp split: sum.splits)
  have ex: "build_category_map parse_code_label [(7, ''Sea''), (7, ''Lake'')]
        = Inl DuplicateCategoryError"
    by (simp add: build_category_map_def parse_code_label_def)
  have first: "i < j \<and> j < length rows \<and> parse (rows ! i) = Some (c, l1)
      \<and> parse (rows ! j) = Some (c, l2) \<and> l1 \<noteq> l2
      \<longrightarrow> build_category_map parse rows = Inl DuplicateCategoryError"
    using pair by blast
  have third: "consistent (set (parsed_rows parse rows)) \<longrightarrow>
        (\<exists>m. build_category_map parse rows
                = Inr (m, map SkippedRow (filter (\<lambda>r. parse r = None) rows))
             \<and> set m = set (parsed_rows parse rows) \<and> distinct (map fst m))"
    using good by (rule impI)
  from first iff third skip ex show ?thesis
    by (intro conjI)
qed

theorem build_category_map_duplicates_witness:
  "(0::nat) < 2 \<and> 2 < length [(1 :: int, ''Urban''), (- 1, ''?''), (1, ''Forest'')]
   \<and> parse_code_label ([(1, ''Urban''), (- 1, ''?''), (1, ''Forest'')] ! 0) = Some (1, ''Urban'')
   \<and> parse_code_label ([(1, ''Urban''), (- 1, ''?''), (1, ''Forest'')] ! 2) = Some (1, ''Forest'')
   \<and> ''Urban'' \<noteq> ''Forest''
   \<and> build_category_map parse_code_label [(1, ''Urban''), (- 1, ''?''), (1, ''Forest'')]
       = Inl DuplicateCategoryError
   \<and> consistent (set (parsed_rows parse_code_label
                        [(1, ''Urban''), (- 1, ''?''), (2, ''Forest''), (1, ''Urban'')]))
   \<and> (\<exists>m. build_category_map parse_code_label
               [(1, ''Urban''), (- 1, ''?''), (2, ''Forest''), (1, ''Urban'')]
              = Inr (m, [SkippedRow (- 1, ''?'')])
          \<and> set m = {(1, ''Urban''), (2, ''Forest'')})"
proof -
  let ?bad = "[(1, ''Urban''), (- 1, ''?''), (1, ''Forest'')] :: (int \<times> string) list"
  let ?ok = "[(1, ''Urban''), (- 1, ''?''), (2, ''Forest''), (1, ''Urban'')] :: (int \<times> string) list"
  have h1: "(0::nat) < 2" and h2: "2 < length ?bad"
    and h3: "parse_code_label (?bad ! 0) = Some (1, ''Urban'')"
    and h4: "parse_code_label (?bad ! 2) = Some (1, ''Forest'')"
    and h5: "''Urban'' \<noteq> ''Forest''"
    by (simp_all add: parse_code_label_def)
  then have h: "(0::nat) < 2 \<and> 2 < length ?bad
      \<and> parse_code_label (?bad ! 0) = Some (1, ''Urban'')
      \<and> parse_code_label (?bad ! 2) = Some (1, ''Forest'') \<and> ''Urban'' \<noteq> ''Forest''"
    by (intro conjI)
  then have dup: "build_category_map parse_code_label ?bad = Inl DuplicateCategoryError"
    by (rule build_category_map_duplicates
               [of 0 2 ?bad parse_code_label 1 "''Urban''" "''Forest''",
                THEN conjunct1, rule_format])
  have p: "parsed_rows parse_code_label ?ok = [(1, ''Urban''), (2, ''Forest''), (1, ''Urban'')]"
    by (simp add: parsed_rows_def map_filter_simps parse_code_label_def)
  have c: "consistent (set (parsed_rows parse_code_label ?ok))"
    unfolding p consistent_def by auto
  have f: "filter (\<lambda>r. parse_code_label r = None) ?ok = [(- 1, ''?'')]"
    by (simp add: parse_code_label_def)
  obtain m where "build_category_map parse_code_label ?ok
                = Inr (m, map SkippedRow (filter (\<lambda>r. parse_code_label r = None) ?ok))"
    and "set m = set (parsed_rows parse_code_label ?ok)"
    using build_category_map_duplicates
            [of 0 0 ?ok parse_code_label 0 "[]" "[]",
             THEN conjunct2, THEN conjunct2, THEN conjunct1, rule_format, OF c]
    by (elim exE conjE)
  then have "build_category_map parse_code_label ?ok = Inr (m, [SkippedRow (- 1, ''?'')])"
    and "set m = {(1, ''Urban''), (2, ''Forest'')}"
    unfolding f p by auto
  then have ex: "\<exists>m. build_category_map parse_code_label ?ok = Inr (m, [SkippedRow (- 1, ''?'')])
                  \<and> set m = {(1, ''Urban''), (2, ''Forest'')}"
    by (intro exI [of _ m] conjI)
  from h1 h2 h3 h4 h5 dup c ex show ?thesis
    by (intro conjI)
qed

section \<open>Properties of the contrast stretch\<close>

lemma percentile_between:
  assumes "xs \<noteq> []" "0 \<le> q" "q \<le> 100"
  shows "sort xs ! 0 \<le> percentile q xs"
    and "percentile q xs \<le> sort xs ! (length xs - 1)"
proof -
  define s where "s = sort xs"
  define n where "n = length s"
  define h where "h = q / 100 * real (n - 1)"
  define lo where "lo = nat \<lfloor>h\<rfloor>"
  define hi where "hi = min (lo + 1) (n - 1)"
  have n: "0 < n" "n = length xs"
    using assms(1) by (simp_all add: n_def s_def)
  have srt: "sorted s" by (simp add: s_def)
  have h0: "0 \<le> h"
    using assms(2) by (simp add: h_def)
  have "q / 100 \<le> 1" using assms(3) by simp
  then have "q / 100 * real (n - 1) \<le> 1 * real (n - 1)"
    by (intro mult_right_mono) simp_all
  then have hn: "h \<le> real (n - 1)"
    by (simp add: h_def)
  have lo_le: "real lo \<le> h"
    using h0 by (simp add: lo_def)
  have lo_gt: "h < real lo + 1"
    using h0 by (simp add: lo_def)
  have "real lo \<le> real (n - 1)" using lo_le hn by linarith
  then have lo_n: "lo \<le> n - 1" by simp
  have hi_n: "hi \<le> n - 1" and lo_hi: "lo \<le> hi"
    using lo_n by (simp_all add: hi_def)
  have last_lt: "n - 1 < length s"
    using n(1) by (simp add: n_def)
  have hi_lt: "hi < length s" and lo_lt: "lo < length s"
    using hi_n lo_n last_lt by linarith+
  have i1: "s ! 0 \<le> s ! lo"
    using srt _ lo_lt by (rule sorted_nth_mono) simp
  have i2: "s ! lo \<le> s ! hi"
    using srt lo_hi hi_lt by (rule sorted_nth_mono)
  have i3: "s ! hi \<le> s ! (n - 1)"
    using srt hi_n last_lt by (rule sorted_nth_mono)
  define t where "t = h - real lo"
  have t: "0 \<le> t" "t \<le> 1" using lo_le lo_gt by (simp_all add: t_def)
  define u where "u = t * (s ! hi - s ! lo)"
  have val: "percentile q xs = s ! lo + u"
    by (simp add: percentile_def Let_def s_def n_def h_def lo_def hi_def t_def u_def)
  have u0: "0 \<le> u"
    unfolding u_def using t(1) i2 by simp
  have "t * (s ! hi - s ! lo) \<le> 1 * (s ! hi - s ! lo)"
    using t(2) i2 by (intro mult_right_mono) simp_all
  then have u1: "u \<le> s ! hi - s ! lo"
    by (simp add: u_def)
  show "sort xs ! 0 \<le> percentile q xs"
    using i1 u0 unfolding val s_def [symmetric] by linarith
  show "percentile q xs \<le> sort xs ! (length xs - 1)"
    using i3 u1 unfolding val s_def [symmetric] n(2) [symmetric] by linarith
qed

lemma sort_ends_member:
  assumes "xs \<noteq> []"
  shows "sort xs ! 0 \<in> set xs" and "sort xs ! (length xs - 1) \<in> set xs"
proof -
  have "0 < length (sort xs)" using assms by simp
  then have "sort xs ! 0 \<in> set (sort xs)" by (rule nth_mem)
  then show "sort xs ! 0 \<in> set xs" by simp
  have "length xs - 1 < length (sort xs)" using assms by simp
  then have "sort xs ! (length xs - 1) \<in> set (sort xs)" by (rule nth_mem)
  then show "sort xs ! (length xs - 1) \<in> set xs" by simp
qed

lemma valid_samples_member: "r \<in> set (valid_samples band) \<longleftrightarrow> Num r \<in> set (items band)"
  by (auto simp: valid_samples_def map_filter_def split: float64.splits)

lemma stretch_sample_nan:
  "d \<noteq> 0 \<Longrightarrow> f_clip01 (f_div (f_sub x (Num p)) (Num d)) = NaN \<longleftrightarrow> x = NaN"
  by (cases x) (simp_all add: f_sub_def)

lemma stretch_sample_range:
  "d \<noteq> 0 \<Longrightarrow> f_clip01 (f_div (f_sub x (Num p)) (Num d)) = Num y \<Longrightarrow> 0 \<le> y \<and> y \<le> 1"
  by (cases x) (auto simp: f_sub_def split: if_splits)

lemma stretch_sample_num:
  "d \<noteq> 0 \<Longrightarrow> f_clip01 (f_div (f_sub (Num x) (Num p)) (Num d)) = Num (max 0 (min 1 ((x - p) / d)))"
  by (simp add: f_sub_def)

lemma stretch_ends:
  fixes a b pl ph :: real
  assumes "a \<le> pl" "a \<le> ph" "pl \<le> b" "ph \<le> b" "pl \<noteq> ph"
  shows "(max 0 (min 1 ((a - pl) / (ph - pl))) = 0 \<and> max 0 (min 1 ((b - pl) / (ph - pl))) = 1)
       \<or> (max 0 (min 1 ((a - pl) / (ph - pl))) = 1 \<and> max 0 (min 1 ((b - pl) / (ph - pl))) = 0)"
proof (cases "pl < ph")
  case True
  then have "(a - pl) / (ph - pl) \<le> 0" "1 \<le> (b - pl) / (ph - pl)"
    using assms by (simp_all add: divide_le_0_iff le_divide_eq)
  then show ?thesis by simp
next
  case False
  with assms(5) have "ph < pl" by simp
  then have "1 \<le> (a - pl) / (ph - pl)" "(b - pl) / (ph - pl) \<le> 0"
    using assms by (simp_all add: divide_le_0_iff le_divide_eq)
  then show ?thesis by simp
qed

lemma stretch_unfold:
  assumes "0 \<le> lowp" "lowp \<le> 100" "0 \<le> highp" "highp \<le> 100"
    and "valid_samples band \<noteq> []"
    and "percentile lowp (valid_samples band) \<noteq> percentile highp (valid_samples band)"
  shows "stretch lowp highp band =
           Inr (nd_map (\<lambda>x. f_clip01 (f_div (f_sub x (Num (percentile lowp (valid_samples band))))
                                            (Num (percentile highp (valid_samples band)
                                                    - percentile lowp (valid_samples band)))))
                       band)"
  using assms by (simp add: stretch_def Let_def)

lemma stretch_nodata_kept:
  assumes "0 \<le> lowp" "lowp \<le> 100" "0 \<le> highp" "highp \<le> 100"
  shows "\<exists>out. stretch lowp highp band = Inr out \<and> same_shape out band
           \<and> length (items out) = length (items band)
           \<and> (\<forall>k < length (items band). items out ! k = NaN \<longleftrightarrow> items band ! k = NaN)"
proof (cases "valid_samples band \<noteq> []
              \<and> percentile lowp (valid_samples band) \<noteq> percentile highp (valid_samples band)")
  case True
  then have d: "percentile highp (valid_samples band) - percentile lowp (valid_samples band) \<noteq> 0"
    by simp
  show ?thesis
    unfolding stretch_unfold [OF assms True [THEN conjunct1] True [THEN conjunct2]]
    using stretch_sample_nan [OF d] by (simp add: same_shape_def)
next
  case False
  then have "stretch lowp highp band = Inr band"
    using assms by (auto simp: stretch_def Let_def)
  then show ?thesis by (simp add: same_shape_def)
qed

text \<open>
  C8. With percentile bounds within 0..100 the stretch returns an array of the same shape in
  which a sample is NaN exactly where the input is NaN. For a non-empty reflectance array
  without no-data pixels whose low and high percentile values differ, every sample equal
  to the low percentile value becomes 0 and every sample equal to the high one becomes 1,
  every output sample lies in [0,1], and both 0 and 1 occur in the output, so that its
  minimum is 0 and its maximum is 1.
\<close>

theorem stretch_range:
  "(0 \<le> lowp \<and> lowp \<le> 100 \<and> 0 \<le> highp \<and> highp \<le> 100 \<longrightarrow>
      (\<exists>out. stretch lowp highp band = Inr out \<and> same_shape out band
         \<and> length (items out) = length (items band)
         \<and> (\<forall>k < length (items band). items out ! k = NaN \<longleftrightarrow> items band ! k = NaN)))
   \<and> (0 \<le> lowp \<and> lowp \<le> 100 \<and> 0 \<le> highp \<and> highp \<le> 100
        \<and> items band \<noteq> [] \<and> (\<forall>k < length (items band). \<exists>r. items band ! k = Num r)
        \<and> percentile lowp (valid_samples band) \<noteq> percentile highp (valid_samples band) \<longrightarrow>
      (\<exists>out. stretch lowp highp band = Inr out \<and> same_shape out band
         \<and> length (items out) = length (items band)
         \<and> (\<forall>k < length (items band).
               items band ! k = Num (percentile lowp (valid_samples band))
                 \<longrightarrow> items out ! k = Num 0)
         \<and> (\<forall>k < length (items band).
               items band ! k = Num (percentile highp (valid_samples band))
                 \<longrightarrow> items out ! k = Num 1)
         \<and> (\<forall>k < length (items band). \<exists>y. items out ! k = Num y \<and> 0 \<le> y \<and> y \<le> 1)
         \<and> (\<exists>k < length (items band). items out ! k = Num 0)
         \<and> (\<exists>k < length (items band). items out ! k = Num 1)))"
proof (intro conjI impI)
  assume "0 \<le> lowp \<and> lowp \<le> 100 \<and> 0 \<le> highp \<and> highp \<le> 100"
  then show "\<exists>out. stretch lowp highp band = Inr out \<and> same_shape out band
         \<and> length (items out) = length (items band)
         \<and> (\<forall>k < length (items band). items out ! k = NaN \<longleftrightarrow> items band ! k = NaN)"
    using stretch_nodata_kept [of lowp highp band] by blast
next
  let ?v = "valid_samples band"
  let ?pl = "percentile lowp ?v"
  let ?ph = "percentile highp ?v"
  let ?f = "\<lambda>x. f_clip01 (f_div (f_sub x (Num ?pl)) (Num (?ph - ?pl)))"
  let ?out = "nd_map ?f band"
  assume h: "0 \<le> lowp \<and> lowp \<le> 100 \<and> 0 \<le> highp \<and> highp \<le> 100
        \<and> items band \<noteq> [] \<and> (\<forall>k < length (items band). \<exists>r. items band ! k = Num r)
        \<and> ?pl \<noteq> ?ph"
  then have pc: "0 \<le> lowp" "lowp \<le> 100" "0 \<le> highp" "highp \<le> 100"
    and ne: "items band \<noteq> []"
    and fin: "\<And>k. k < length (items band) \<Longrightarrow> \<exists>r. items band ! k = Num r"
    and df: "?pl \<noteq> ?ph"
    by simp_all
  have d: "?ph - ?pl \<noteq> 0" using df by simp
  obtain r0 where "items band ! 0 = Num r0"
    using fin [of 0] ne by auto
  then have "Num r0 \<in> set (items band)"
    using ne by (metis length_greater_0_conv nth_mem)
  then have vne: "?v \<noteq> []"
    using valid_samples_member [of r0 band] by auto
  have run: "stretch lowp highp band = Inr ?out"
    using pc vne df by (rule stretch_unfold)
  have item: "items ?out ! k = ?f (items band ! k)" if "k < length (items band)" for k
    using that by simp
  have num: "items ?out ! k = Num (max 0 (min 1 ((x - ?pl) / (?ph - ?pl))))"
    if "k < length (items band)" "items band ! k = Num x" for k x
    using item [OF that(1)] that(2) stretch_sample_num [OF d] by simp
  have low: "items ?out ! k = Num 0"
    if "k < length (items band)" "items band ! k = Num ?pl" for k
    using num [OF that] by simp
  have high: "items ?out ! k = Num 1"
    if "k < length (items band)" "items band ! k = Num ?ph" for k
    using num [OF that] d by simp
  have rng: "\<exists>y. items ?out ! k = Num y \<and> 0 \<le> y \<and> y \<le> 1"
    if kk: "k < length (items band)" for k
  proof -
    obtain x where x: "items band ! k = Num x" using fin [OF kk] by blast
    from num [OF kk x] show ?thesis by auto
  qed
  define a where "a = sort ?v ! 0"
  define b where "b = sort ?v ! (length ?v - 1)"
  have "a \<in> set ?v" "b \<in> set ?v"
    using sort_ends_member [OF vne] by (simp_all add: a_def b_def)
  then have "Num a \<in> set (items band)" "Num b \<in> set (items band)"
    by (simp_all add: valid_samples_member)
  then obtain ka kb where ka: "ka < length (items band)" "items band ! ka = Num a"
    and kb: "kb < length (items band)" "items band ! kb = Num b"
    by (metis in_set_conv_nth)
  have bounds: "a \<le> ?pl" "a \<le> ?ph" "?pl \<le> b" "?ph \<le> b"
    using percentile_between [OF vne pc(1,2)] percentile_between [OF vne pc(3,4)]
    by (simp_all add: a_def b_def)
  have ends: "(items ?out ! ka = Num 0 \<and> items ?out ! kb = Num 1)
            \<or> (items ?out ! ka = Num 1 \<and> items ?out ! kb = Num 0)"
    using stretch_ends [OF bounds df] num [OF ka] num [OF kb] by auto
  have zero: "\<exists>k < length (items band). items ?out ! k = Num 0"
    using ends ka(1) kb(1) by blast
  have one: "\<exists>k < length (items band). items ?out ! k = Num 1"
    using ends ka(1) kb(1) by blast
  have shape: "same_shape ?out band" "length (items ?out) = length (items band)"
    by (simp_all add: same_shape_def)
  show "\<exists>out. stretch lowp highp band = Inr out \<and> same_shape out band
         \<and> length (items out) = length (items band)
         \<and> (\<forall>k < length (items band). items band ! k = Num ?pl \<longrightarrow> items out ! k = Num 0)
         \<and> (\<forall>k < length (items band). items band ! k = Num ?ph \<longrightarrow> items out ! k = Num 1)
         \<and> (\<forall>k < length (items band). \<exists>y. items out ! k = Num y \<and> 0 \<le> y \<and> y \<le> 1)
         \<and> (\<exists>k < length (items band). items out ! k = Num 0)
         \<and> (\<exists>k < length (items band). items out ! k = Num 1)"
    using run shape low high rng zero one by (intro exI [of _ ?out] conjI allI impI)
qed

theorem stretch_range_witness:
  "(0::real) \<le> 0 \<and> (0::real) \<le> 100 \<and> (100::real) \<le> 100
   \<and> items (of_rows [[Num (1/5), Num (3/5)], [Num (2/5), Num (3/5)]])
       = [Num (1/5), Num (3/5), Num (2/5), Num (3/5)]
   \<and> percentile 0 (valid_samples (of_rows [[Num (1/5), Num (3/5)], [Num (2/5), Num (3/5)]])) = 1/5
   \<and> percentile 100 (valid_samples (of_rows [[Num (1/5), Num (3/5)], [Num (2/5), Num (3/5)]])) = 3/5
   \<and> (\<exists>out. stretch 0 100 (of_rows [[Num (1/5), Num (3/5)], [Num (2/5), Num (3/5)]]) = Inr out
          \<and> items out ! 0 = Num 0 \<and> items out ! 1 = Num 1 \<and> items out ! 3 = Num 1)"
proof -
  let ?band = "of_rows [[Num (1/5), Num (3/5)], [Num (2/5), Num (3/5)]]"
  have its: "items ?band = [Num (1/5), Num (3/5), Num (2/5), Num (3/5)]"
    by (simp add: of_rows_def)
  have v: "valid_samples ?band = [1/5, 3/5, 2/5, 3/5]"
    by (simp add: valid_samples_def its map_filter_simps)
  have srt: "sort [1/5, 3/5, 2/5, 3/5 :: real] = [1/5, 2/5, 3/5, 3/5]"
    by simp
  have pl: "percentile 0 (valid_samples ?band) = 1/5"
    unfolding v by (simp add: percentile_def srt Let_def)
  have ph: "percentile 100 (valid_samples ?band) = 3/5"
    unfolding v by (simp add: percentile_def srt Let_def)
  have "list_all (\<lambda>x. \<exists>r. x = Num r) (items ?band)"
    unfolding its by (simp only: list.pred_inject) blast
  then have fin: "\<forall>k < length (items ?band). \<exists>r. items ?band ! k = Num r"
    by (simp only: list_all_length)
  have hyp: "(0::real) \<le> 0 \<and> (0::real) \<le> 100 \<and> (0::real) \<le> 100 \<and> (100::real) \<le> 100
        \<and> items ?band \<noteq> [] \<and> (\<forall>k < length (items ?band). \<exists>r. items ?band ! k = Num r)
        \<and> percentile 0 (valid_samples ?band) \<noteq> percentile 100 (valid_samples ?band)"
    using fin by (simp add: pl ph its)
  obtain out where run: "stretch 0 100 ?band = Inr out"
    and low: "\<forall>k < length (items ?band).
               items ?band ! k = Num (percentile 0 (valid_samples ?band))
                 \<longrightarrow> items out ! k = Num 0"
    and high: "\<forall>k < length (items ?band).
               items ?band ! k = Num (percentile 100 (valid_samples ?band))
                 \<longrightarrow> items out ! k = Num 1"
    using stretch_range [of 0 100 ?band, THEN conjunct2, rule_format, OF hyp]
    by (elim exE conjE)
  have o0: "items out ! 0 = Num 0"
    using low [rule_format, of 0] by (simp add: its pl)
  have o1: "items out ! 1 = Num 1"
    using high [rule_format, of 1] by (simp add: its ph)
  have o3: "items out ! 3 = Num 1"
    using high [rule_format, of 3] by (simp add: its ph)
  have ex: "\<exists>out. stretch 0 100 ?band = Inr out
          \<and> items out ! 0 = Num 0 \<and> items out ! 1 = Num 1 \<and> items out ! 3 = Num 1"
    using run o0 o1 o3 by (intro exI [of _ out] conjI)
  have t: "(0::real) \<le> 0" "(0::real) \<le> 100" "(100::real) \<le> 100" by simp_all
  from t its pl ph ex show ?thesis
    by (intro conjI)
qed

end
